theory Spec2Isabelle
  imports Main "HOL-Library.AList" "HOL-Library.Multiset"
begin

section \<open>Python values, exceptions and dictionaries\<close>

text \<open>
  The parsers of \<^verbatim>\<open>entsoe_client/Parsers/ParserUtils.py\<close> walk an XML tree and build
  lists of dictionaries. An exception of the source is a value \<open>Inl e\<close> of the model.
\<close>

datatype error = IndexError | KeyError | ValueError | TypeError | AttributeError
  | AssertionError

text \<open>
  The values stored in the dictionaries: the text of an element (a string, or \<open>None\<close>
  for an element without text) and the integers of the sentinel row of \<open>get_data\<close>.
\<close>

datatype pyval = PyNone | PyStr string | PyInt int

text \<open>
  A Python \<open>dict\<close> keeps its keys in insertion order and assigning to a present key
  replaces the value in place: an association list with distinct keys, updated by
  \<^const>\<open>AList.update\<close>.
\<close>

type_synonym ('k, 'v) pydict = "('k \<times> 'v) list"
type_synonym pyrec = "(string, pyval) pydict"

definition py_dict :: "('k \<times> 'v) list \<Rightarrow> ('k, 'v) pydict" where
  "py_dict ps = foldl (\<lambda>d (k, v). AList.update k v d) [] ps"

definition getitem :: "('k, 'v) pydict \<Rightarrow> 'k \<Rightarrow> error + 'v" where
  "getitem d k = (case map_of d k of None \<Rightarrow> Inl KeyError | Some v \<Rightarrow> Inr v)"

definition keys :: "('k, 'v) pydict \<Rightarrow> 'k list" where
  "keys d = map fst d"

subsection \<open>\<open>int(...)\<close> and \<open>str(...)\<close>\<close>

text \<open>
  \<open>int(s)\<close> on a string strips surrounding whitespace, reads an optional sign and then
  decimal digits, where single underscores may separate digits; anything else is a
  \<open>ValueError\<close>. \<open>int(None)\<close> is a \<open>TypeError\<close>. Characters are bytes here, so the
  digits are the ASCII ones and the blanks are the characters 9 to 13 and 32; the
  interpreter's bound on the number of digits is not part of the model.
\<close>

definition is_digit :: "char \<Rightarrow> bool" where
  "is_digit c = (let n = (of_char c :: nat) in 48 \<le> n \<and> n \<le> 57)"

definition digit_val :: "char \<Rightarrow> nat" where
  "digit_val c = of_char c - 48"

definition is_space :: "char \<Rightarrow> bool" where
  "is_space c = (let n = (of_char c :: nat) in (9 \<le> n \<and> n \<le> 13) \<or> n = 32)"

definition strip :: "string \<Rightarrow> string" where
  "strip s = rev (dropWhile is_space (rev (dropWhile is_space s)))"

fun parse_digits :: "bool \<Rightarrow> nat \<Rightarrow> string \<Rightarrow> nat option" where
  "parse_digits prev acc [] = (if prev then Some acc else None)"
| "parse_digits prev acc (c # cs) =
     (if is_digit c then parse_digits True (10 * acc + digit_val c) cs
      else if c = CHR ''_'' \<and> prev then parse_digits False acc cs
      else None)"

definition int_of_string :: "string \<Rightarrow> int option" where
  "int_of_string s =
     (case strip s of
        [] \<Rightarrow> None
      | c # cs \<Rightarrow>
          if c = CHR ''-'' then map_option (\<lambda>n. - int n) (parse_digits False 0 cs)
          else if c = CHR ''+'' then map_option int (parse_digits False 0 cs)
          else map_option int (parse_digits False 0 (c # cs)))"

definition py_int :: "pyval \<Rightarrow> error + int" where
  "py_int v =
     (case v of
        PyNone \<Rightarrow> Inl TypeError
      | PyInt i \<Rightarrow> Inr i
      | PyStr s \<Rightarrow> (case int_of_string s of None \<Rightarrow> Inl ValueError | Some i \<Rightarrow> Inr i))"

definition digit_char :: "nat \<Rightarrow> char" where
  "digit_char d = char_of (48 + d)"

fun str_nat :: "nat \<Rightarrow> string" where
  "str_nat n = (if n < 10 then [digit_char n] else str_nat (n div 10) @ [digit_char (n mod 10)])"

declare str_nat.simps [simp del]

definition py_str :: "int \<Rightarrow> string" where
  "py_str i = (if i < 0 then CHR ''-'' # str_nat (nat (- i)) else str_nat (nat i))"

subsection \<open>\<open>max\<close> and \<open>list.sort\<close>\<close>

definition py_max :: "int list \<Rightarrow> error + int" where
  "py_max xs = (case xs of [] \<Rightarrow> Inl ValueError | x # ys \<Rightarrow> Inr (fold max ys x))"

definition py_max_default :: "int list \<Rightarrow> int \<Rightarrow> int" where
  "py_max_default xs d = (case xs of [] \<Rightarrow> d | x # ys \<Rightarrow> fold max ys x)"

text \<open>The sort key of the source: \<open>lambda x: int(x['position'])\<close>.\<close>

definition position_of :: "pyrec \<Rightarrow> error + int" where
  "position_of x = (case getitem x ''position'' of Inl e \<Rightarrow> Inl e | Inr v \<Rightarrow> py_int v)"

text \<open>
  \<open>list.sort(key=...)\<close> computes the key of every element first, from left to right,
  and leaves the list as it was when a key raises; then it sorts stably by the keys.
\<close>

fun sort_keys :: "pyrec list \<Rightarrow> error + int list" where
  "sort_keys [] = Inr []"
| "sort_keys (x # xs) =
     (case position_of x of
        Inl e \<Rightarrow> Inl e
      | Inr k \<Rightarrow> (case sort_keys xs of Inl e \<Rightarrow> Inl e | Inr ks \<Rightarrow> Inr (k # ks)))"

definition sort_by_position :: "pyrec list \<Rightarrow> error + pyrec list" where
  "sort_by_position data =
     (case sort_keys data of
        Inl e \<Rightarrow> Inl e
      | Inr ks \<Rightarrow> Inr (map snd (sort_key fst (zip ks data))))"

section \<open>The document tree\<close>

text \<open>
  An element of the parsed document: its tag, its text and its children in document
  order. The path expressions of the source carry no namespace prefix, so they select
  by the plain tag.
\<close>

datatype node = Node (node_tag: string) (node_text: "string option") (getchildren: "node list")

definition text_of :: "node \<Rightarrow> pyval" where
  "text_of n = (case node_text n of None \<Rightarrow> PyNone | Some s \<Rightarrow> PyStr s)"

text \<open>One step \<open>./t\<close> of a path: the children with tag \<open>t\<close>.\<close>

definition xpath_step :: "string \<Rightarrow> node \<Rightarrow> node list" where
  "xpath_step t n = filter (\<lambda>c. node_tag c = t) (getchildren n)"

text \<open>A relative path \<open>./t1/t2/...\<close>, in document order.\<close>

fun xpath :: "string list \<Rightarrow> node \<Rightarrow> node list" where
  "xpath [] n = [n]"
| "xpath (t # ts) n = concat (map (xpath ts) (xpath_step t n))"

declare xpath.simps [simp del]

subsection \<open>\<open>unfold_node\<close>\<close>

text \<open>
  The value \<open>unfold_node\<close> pairs with a tag: the text of a leaf, or the dictionary of
  the unfolded children.
\<close>

datatype unfolded = Leaf "string option" | Dict "(string \<times> unfolded) list"

fun unfold_node :: "node \<Rightarrow> string \<times> unfolded" where
  "unfold_node (Node tag txt children) =
     (if children = [] then (tag, Leaf txt)
      else (tag, Dict (py_dict (map unfold_node children))))"

declare unfold_node.simps [simp del]

text \<open>\<open>dict([(datum.tag, datum.text) for datum in point.iterchildren()])\<close>\<close>

definition point_dict :: "node \<Rightarrow> pyrec" where
  "point_dict point = py_dict (map (\<lambda>datum. (node_tag datum, text_of datum)) (getchildren point))"

section \<open>Position reconciliation\<close>

text \<open>
  \<open>{int(pos['position']): pos[key] for pos in data}\<close>: a later record with the same
  position replaces the value of an earlier one.
\<close>

fun complete_data_items :: "pyrec list \<Rightarrow> string \<Rightarrow> error + (int \<times> pyval) list" where
  "complete_data_items [] key = Inr []"
| "complete_data_items (pos # data) key =
     (case position_of pos of
        Inl e \<Rightarrow> Inl e
      | Inr p \<Rightarrow>
          (case getitem pos key of
             Inl e \<Rightarrow> Inl e
           | Inr v \<Rightarrow>
               (case complete_data_items data key of
                  Inl e \<Rightarrow> Inl e
                | Inr items \<Rightarrow> Inr ((p, v) # items))))"

text \<open>
  The loop \<open>for position in range(1, max(complete_data) + 1)\<close>. It appends to the list
  \<open>data\<close> in place, so the list is threaded through: the result is the exception that
  ended the loop, if any, and the contents of the list at that moment.
\<close>

fun fill_missing :: "(int, pyval) pydict \<Rightarrow> string \<Rightarrow> int list \<Rightarrow> pyrec list \<Rightarrow> error option \<times> pyrec list" where
  "fill_missing complete_data key [] data = (None, data)"
| "fill_missing complete_data key (position # rest) data =
     (if position \<notin> set (keys complete_data) then
        (let prev_position = py_max_default (filter (\<lambda>x. x < position) (keys complete_data)) 0
         in case getitem complete_data prev_position of
              Inl e \<Rightarrow> (Some e, data)
            | Inr v \<Rightarrow>
                fill_missing complete_data key rest
                  (data @ [py_dict [(''position'', PyStr (py_str position)), (key, v)]]))
      else fill_missing complete_data key rest data)"

text \<open>
  \<open>check_period_data_missing\<close> sorts and extends its argument in place and returns that
  same list. The model returns the exception raised, if any, and the contents of the
  caller's list when the call ends; after a normal return these contents are the
  returned list.
\<close>

definition check_period_data_missing :: "pyrec list \<Rightarrow> string \<Rightarrow> error option \<times> pyrec list" where
  "check_period_data_missing data key =
     (case sort_by_position data of
        Inl e \<Rightarrow> (Some e, data)
      | Inr data1 \<Rightarrow>
          (case complete_data_items data1 key of
             Inl e \<Rightarrow> (Some e, data1)
           | Inr items \<Rightarrow>
               (let complete_data = py_dict items in
                case py_max (keys complete_data) of
                  Inl e \<Rightarrow> (Some e, data1)
                | Inr m \<Rightarrow>
                    (case fill_missing complete_data key [1..m] data1 of
                       (Some e, data2) \<Rightarrow> (Some e, data2)
                     | (None, data2) \<Rightarrow>
                         (case sort_by_position data2 of
                            Inl e \<Rightarrow> (Some e, data2)
                          | Inr data3 \<Rightarrow> (None, data3))))))"

text \<open>
  The comprehension that pads the tail,
  \<open>[{'position': str(i + 1), key: data[-1][key]} for i in range(length - len(data))]\<close>.
\<close>

fun pad_records :: "pyrec list \<Rightarrow> string \<Rightarrow> int list \<Rightarrow> error + pyrec list" where
  "pad_records data key [] = Inr []"
| "pad_records data key (i # rest) =
     (if data = [] then Inl IndexError
      else case getitem (last data) key of
             Inl e \<Rightarrow> Inl e
           | Inr v \<Rightarrow>
               (case pad_records data key rest of
                  Inl e \<Rightarrow> Inl e
                | Inr rs \<Rightarrow> Inr (py_dict [(''position'', PyStr (py_str (i + 1))), (key, v)] # rs)))"

definition get_Period_data :: "node \<Rightarrow> int \<Rightarrow> error + pyrec list" where
  "get_Period_data Period len =
     (let points = xpath [''Point''] Period;
          data = map point_dict points
      in case data of
           [] \<Rightarrow> Inl IndexError
         | first # _ \<Rightarrow>
             (case drop 1 (keys first) of
                [] \<Rightarrow> Inl IndexError
              | key # _ \<Rightarrow>
                  (case check_period_data_missing data key of
                     (Some e, _) \<Rightarrow> Inl e
                   | (None, data1) \<Rightarrow>
                       if len \<noteq> int (length data1) then
                         (case pad_records data1 key [0..len - int (length data1) - 1] of
                            Inl e \<Rightarrow> Inl e
                          | Inr rs \<Rightarrow> Inr (data1 @ rs))
                       else Inr data1)))"

section \<open>The time index\<close>

text \<open>\<open>resolution_map\<close>, looked up with the text of the \<open>resolution\<close> element.\<close>

definition resolution_map :: "(pyval, string) pydict" where
  "resolution_map =
     [(PyStr ''P1Y'', ''12M''),
      (PyStr ''P1M'', ''1M''),
      (PyStr ''P7D'', ''7D''),
      (PyStr ''P1D'', ''1D''),
      (PyStr ''PT60M'', ''60min''),
      (PyStr ''PT30M'', ''30min''),
      (PyStr ''PT15M'', ''15min''),
      (PyStr ''PT1M'', ''1min'')]"

text \<open>
  Attribute access on a node, \<open>node.t\<close>: the first child with tag \<open>t\<close>, an
  \<open>AttributeError\<close> when there is none.
\<close>

definition child :: "node \<Rightarrow> string \<Rightarrow> error + node" where
  "child n t = (case xpath_step t n of [] \<Rightarrow> Inl AttributeError | c # _ \<Rightarrow> Inr c)"

text \<open>\<open>Period.timeInterval.start.text\<close> and \<open>Period.timeInterval.end.text\<close>\<close>

definition timeInterval_text :: "node \<Rightarrow> string \<Rightarrow> error + pyval" where
  "timeInterval_text Period t =
     (case child Period ''timeInterval'' of
        Inl e \<Rightarrow> Inl e
      | Inr ti \<Rightarrow> (case child ti t of Inl e \<Rightarrow> Inl e | Inr c \<Rightarrow> Inr (text_of c)))"

text \<open>\<open>Period.resolution.text\<close>\<close>

definition resolution_text :: "node \<Rightarrow> error + pyval" where
  "resolution_text Period =
     (case child Period ''resolution'' of Inl e \<Rightarrow> Inl e | Inr c \<Rightarrow> Inr (text_of c))"

text \<open>\<open>index[:-1] if index.size > 1 else index\<close>\<close>

definition half_open :: "'t list \<Rightarrow> 't list" where
  "half_open index = (if length index > 1 then butlast index else index)"

text \<open>
  \<open>get_Period_index\<close>. \<open>pandas.date_range\<close> belongs to a library outside the
  repository: it is the parameter \<open>date_range\<close>, which takes the two texts and the
  frequency string and returns the generated timestamps or raises.
\<close>

definition get_Period_index ::
  "(pyval \<Rightarrow> pyval \<Rightarrow> string \<Rightarrow> error + 't list) \<Rightarrow> node \<Rightarrow> error + 't list" where
  "get_Period_index date_range Period =
     (case timeInterval_text Period ''start'' of
        Inl e \<Rightarrow> Inl e
      | Inr start \<Rightarrow>
     (case timeInterval_text Period ''end'' of
        Inl e \<Rightarrow> Inl e
      | Inr end' \<Rightarrow>
     (case resolution_text Period of
        Inl e \<Rightarrow> Inl e
      | Inr resolution \<Rightarrow>
     (case getitem resolution_map resolution of
        Inl e \<Rightarrow> Inl e
      | Inr freq \<Rightarrow>
     (case date_range start end' freq of
        Inl e \<Rightarrow> Inl e
      | Inr index \<Rightarrow> Inr (half_open index))))))"

text \<open>
  Modelled from the spec: the regular timestamp sequence that the date and time library
  (\<open>pandas.date_range\<close>, not part of the repository) generates from \<open>start\<close> to \<open>end\<close>
  at a fixed frequency. Timestamps and the frequency are counted in minutes; the
  sequence is \<open>start, start + step, ...\<close> up to and including \<open>end\<close>.
\<close>

definition regular_sequence :: "int \<Rightarrow> int \<Rightarrow> int \<Rightarrow> int list" where
  "regular_sequence start end' step =
     (if end' < start \<or> step \<le> 0 then []
      else map (\<lambda>i. start + int i * step) [0..<Suc (nat ((end' - start) div step))])"







section \<open>The outage document\<close>

text \<open>
  An absolute path \<open>//t1/t2/...\<close> selects in the whole document. The outage parser
  is applied to the root of the document, so the document is the argument: every node
  with its ancestors' tags (nearest first), in document order.
\<close>

fun walk :: "string list \<Rightarrow> node \<Rightarrow> (string list \<times> node) list" where
  "walk anc (Node tag txt children) =
     (anc, Node tag txt children) # concat (map (walk (tag # anc)) children)"

definition xpath_anywhere :: "string list \<Rightarrow> node \<Rightarrow> node list" where
  "xpath_anywhere path root =
     map snd (filter (\<lambda>(anc, n). take (length path) (node_tag n # anc) = rev path) (walk [] root))"

text \<open>\<open>dict([(f"{prefix}.{datum.tag}", datum.text) for datum in point.iterchildren()])\<close>\<close>

definition prefixed_dict :: "string \<Rightarrow> node \<Rightarrow> pyrec" where
  "prefixed_dict prefix point =
     py_dict (map (\<lambda>datum. (prefix @ ''.'' @ node_tag datum, text_of datum)) (getchildren point))"

text \<open>Indexing a sequence: a negative index counts from the end.\<close>

definition py_index :: "'a list \<Rightarrow> int \<Rightarrow> error + 'a" where
  "py_index xs i =
     (if 0 \<le> i \<and> i < int (length xs) then Inr (xs ! nat i)
      else if i < 0 \<and> - int (length xs) \<le> i then Inr (xs ! nat (int (length xs) + i))
      else Inl IndexError)"

text \<open>
  \<open>get_index\<close>. The element \<open>resolution[0]\<close> is looked up in \<open>resolution_map\<close> by its
  text. \<open>now\<close> is the current time rounded down to the hour, the one entry of the
  fallback index.
\<close>

definition get_index ::
  "(pyval \<Rightarrow> pyval \<Rightarrow> string \<Rightarrow> error + 't list) \<Rightarrow> 't \<Rightarrow> node \<Rightarrow> error + 't list" where
  "get_index date_range now Period =
     (case map point_dict (xpath [''unavailability_Time_Period.timeInterval''] Period) of
        [] \<Rightarrow> Inl IndexError
      | data # _ \<Rightarrow>
     (case getitem data ''start'' of
        Inl e \<Rightarrow> Inl e
      | Inr start \<Rightarrow>
     (case getitem data ''end'' of
        Inl e \<Rightarrow> Inl e
      | Inr end' \<Rightarrow>
     (case xpath [''TimeSeries'', ''Available_Period'', ''resolution''] Period of
        [] \<Rightarrow> Inr [now]
      | resolution # _ \<Rightarrow>
     (case getitem resolution_map (text_of resolution) of
        Inl e \<Rightarrow> Inl e
      | Inr freq \<Rightarrow>
     (case date_range start end' freq of
        Inl e \<Rightarrow> Inl e
      | Inr index \<Rightarrow> Inr (half_open index)))))))"

text \<open>\<open>new_ind.append(index[int(elem['position']) - 1])\<close> for every element of \<open>data\<close>\<close>

fun new_ind :: "'t list \<Rightarrow> pyrec list \<Rightarrow> error + 't list" where
  "new_ind index [] = Inr []"
| "new_ind index (elem # data) =
     (case position_of elem of
        Inl e \<Rightarrow> Inl e
      | Inr p \<Rightarrow>
          (case py_index index (p - 1) of
             Inl e \<Rightarrow> Inl e
           | Inr t \<Rightarrow>
               (case new_ind index data of Inl e \<Rightarrow> Inl e | Inr ts \<Rightarrow> Inr (t # ts))))"

definition get_data ::
  "(pyval \<Rightarrow> pyval \<Rightarrow> string \<Rightarrow> error + 't list) \<Rightarrow> 't \<Rightarrow> node
     \<Rightarrow> error + ('t list \<times> pyrec list)" where
  "get_data date_range now Period =
     (case get_index date_range now Period of
        Inl e \<Rightarrow> Inl e
      | Inr index \<Rightarrow>
          (let points = xpath [''TimeSeries'', ''Available_Period'', ''Point''] Period;
               data = map point_dict points
           in if data = [] then
                Inr (index, [[(''position'', PyInt (- 1)), (''quantity'', PyInt 0)]])
              else
                (case new_ind index data of
                   Inl e \<Rightarrow> Inl e
                 | Inr ts \<Rightarrow> Inr (ts, data))))"

text \<open>\<open>result.setdefault(key, []).append(value)\<close>\<close>

definition setdefault_append :: "'k \<Rightarrow> 'v \<Rightarrow> ('k, 'v list) pydict \<Rightarrow> ('k, 'v list) pydict" where
  "setdefault_append key v result =
     (case map_of result key of
        None \<Rightarrow> result @ [(key, [v])]
      | Some vs \<Rightarrow> AList.update key (vs @ [v]) result)"

definition collect_entries :: "('k, 'v) pydict list \<Rightarrow> ('k, 'v list) pydict" where
  "collect_entries data =
     foldl (\<lambda>result entry. foldl (\<lambda>r (key, v). setdefault_append key v r) result entry) [] data"

text \<open>\<open>sep.join(values)\<close>: a \<open>TypeError\<close> when an item is not a string.\<close>

fun str_items :: "pyval list \<Rightarrow> error + string list" where
  "str_items [] = Inr []"
| "str_items (v # vs) =
     (case v of
        PyStr s \<Rightarrow> (case str_items vs of Inl e \<Rightarrow> Inl e | Inr ss \<Rightarrow> Inr (s # ss))
      | _ \<Rightarrow> Inl TypeError)"

fun intercalate :: "string \<Rightarrow> string list \<Rightarrow> string" where
  "intercalate sep [] = []"
| "intercalate sep [s] = s"
| "intercalate sep (s # t # ss) = s @ sep @ intercalate sep (t # ss)"

definition py_join :: "string \<Rightarrow> pyval list \<Rightarrow> error + string" where
  "py_join sep values = (case str_items values of Inl e \<Rightarrow> Inl e | Inr ss \<Rightarrow> Inr (intercalate sep ss))"

text \<open>\<open>{key: ', '.join(values) for key, values in result.items()}\<close>\<close>

fun join_values :: "(string, pyval list) pydict \<Rightarrow> error + pyrec" where
  "join_values [] = Inr []"
| "join_values ((key, values) # result) =
     (case py_join '', '' values of
        Inl e \<Rightarrow> Inl e
      | Inr s \<Rightarrow>
          (case join_values result of Inl e \<Rightarrow> Inl e | Inr r \<Rightarrow> Inr ((key, PyStr s) # r)))"

definition resource_placeholder :: pyrec where
  "resource_placeholder =
     [(''Asset_RegisteredResource.mRID'', PyStr []),
      (''Asset_RegisteredResource.name'', PyStr []),
      (''Asset_RegisteredResource.asset_PSRType.psrType'', PyStr []),
      (''Asset_RegisteredResource.location.name'', PyStr [])]"

text \<open>
  \<open>get_resource\<close> returns \<open>None\<close> when \<open>find\<close> meets no
  \<open>Asset_RegisteredResource\<close>: the body of the \<open>if\<close> is skipped and the function ends
  without a \<open>return\<close>. Every entry of \<open>data\<close> is a \<open>dict\<close>, so the test
  \<open>all(isinstance(entry, dict) for entry in data)\<close> holds and its branch is taken.
\<close>

definition get_resource :: "node \<Rightarrow> error + pyrec option" where
  "get_resource Period =
     (case xpath [''TimeSeries'', ''Asset_RegisteredResource''] Period of
        [] \<Rightarrow> Inr None
      | tag_available # _ \<Rightarrow>
          (let points = xpath [''TimeSeries'', ''Asset_RegisteredResource''] Period;
               data = map (prefixed_dict ''Asset_RegisteredResource'') points;
               data = (if length data = 0 then [resource_placeholder] else data)
           in case join_values (collect_entries data) of
                Inl e \<Rightarrow> Inl e
              | Inr result \<Rightarrow> Inr (Some result)))"

definition get_infos :: "node \<Rightarrow> error + pyrec" where
  "get_infos Period =
     (case map (prefixed_dict ''TimeSeries'') (xpath_anywhere [''TimeSeries''] Period) of
        [] \<Rightarrow> Inl IndexError
      | data # _ \<Rightarrow>
          Inr (AList.delete ''TimeSeries.Reason''
                (AList.delete ''TimeSeries.Available_Period''
                  (AList.delete ''TimeSeries.Asset_RegisteredResource'' data))))"

definition get_reason :: "node \<Rightarrow> error + pyrec" where
  "get_reason Period =
     (case map (prefixed_dict ''Reason'') (xpath [''Reason''] Period) of
        [] \<Rightarrow> Inl IndexError
      | data # _ \<Rightarrow>
          if ''Reason.text'' \<notin> set (keys data) then
            Inr (AList.update ''Reason.text'' (PyStr []) data)
          else if map_of data ''Reason.text'' = Some (PyStr (CHR 0x0A # ''    '')) then
            Inr (AList.update ''Reason.text'' (PyStr []) data)
          else Inr data)"

text \<open>
  \<open>get_createdatetime\<close>. \<open>str(...)\<close> of an element is the parameter \<open>elem_str\<close>.
\<close>

definition single_str :: "(node \<Rightarrow> string) \<Rightarrow> node list \<Rightarrow> pyval" where
  "single_str elem_str ns = (if length ns = 1 then PyStr (elem_str (hd ns)) else PyNone)"

definition get_createdatetime :: "(node \<Rightarrow> string) \<Rightarrow> node \<Rightarrow> error + pyrec" where
  "get_createdatetime elem_str Period =
     (let created = xpath [''createdDateTime''] Period;
          docstat = xpath [''docStatus'', ''value''] Period;
          revision = xpath [''revisionNumber''] Period;
          resolution = xpath_anywhere [''TimeSeries'', ''Available_Period'', ''resolution''] Period
      in case (if length resolution = 1
               then (case getitem resolution_map (text_of (hd resolution)) of
                       Inl e \<Rightarrow> Inl e
                     | Inr freq \<Rightarrow> Inr (PyStr freq))
               else Inr PyNone) of
           Inl e \<Rightarrow> Inl e
         | Inr res \<Rightarrow>
             Inr (py_dict
                   [(''CreatedDateTime'', single_str elem_str created),
                    (''DocStatus'', single_str elem_str docstat),
                    (''RevisionNumber'', single_str elem_str revision),
                    (''Resolution'', res)]))"

text \<open>
  The table of \<open>outage_dataframe\<close>: the index, the rows, and the columns that
  \<open>df.assign\<close> broadcasts over every row.
\<close>

record 't dataframe =
  df_index :: "'t list"
  df_data :: "pyrec list"
  df_assigned :: pyrec

definition outage_dataframe ::
  "(pyval \<Rightarrow> pyval \<Rightarrow> string \<Rightarrow> error + 't list) \<Rightarrow> 't \<Rightarrow> (node \<Rightarrow> string) \<Rightarrow> node
     \<Rightarrow> error + 't dataframe" where
  "outage_dataframe date_range now elem_str Period =
     (case get_data date_range now Period of
        Inl e \<Rightarrow> Inl e
      | Inr (index, data) \<Rightarrow>
     if length data \<noteq> length index then Inl AssertionError
     else
     (case get_resource Period of
        Inl e \<Rightarrow> Inl e
      | Inr resource \<Rightarrow>
     (case get_infos Period of
        Inl e \<Rightarrow> Inl e
      | Inr infos \<Rightarrow>
     (case get_reason Period of
        Inl e \<Rightarrow> Inl e
      | Inr reason \<Rightarrow>
     (case get_createdatetime elem_str Period of
        Inl e \<Rightarrow> Inl e
      | Inr created \<Rightarrow>
          Inr \<lparr>df_index = index, df_data = data,
               df_assigned =
                 (case resource of
                    Some r \<Rightarrow> py_dict (r @ infos @ reason @ created)
                  | None \<Rightarrow> py_dict (infos @ reason @ created))\<rparr>)))))"

section \<open>Example documents\<close>

definition point :: "string \<Rightarrow> string \<Rightarrow> node" where
  "point p q = Node ''Point'' None
     [Node ''position'' (Some p) [], Node ''quantity'' (Some q) []]"

definition row :: "string \<Rightarrow> string \<Rightarrow> pyrec" where
  "row p q = [(''position'', PyStr p), (''quantity'', PyStr q)]"

definition period :: "string \<Rightarrow> string \<Rightarrow> string \<Rightarrow> node list \<Rightarrow> node" where
  "period start end' resolution points =
     Node ''Period'' None
       ([Node ''timeInterval'' None [Node ''start'' (Some start) [], Node ''end'' (Some end') []],
         Node ''resolution'' (Some resolution) []] @ points)"


definition resource :: "string \<Rightarrow> string \<Rightarrow> node" where
  "resource mrid name = Node ''Asset_RegisteredResource'' None
     [Node ''mRID'' (Some mrid) [], Node ''name'' (Some name) []]"

definition outage_document :: "node list \<Rightarrow> node" where
  "outage_document series =
     Node ''Unavailability_MarketDocument'' None
       [Node ''createdDateTime'' (Some ''2023-01-01T00:00:00Z'') [],
        Node ''unavailability_Time_Period.timeInterval'' None
          [Node ''start'' (Some ''2023-01-01T00:00Z'') [],
           Node ''end'' (Some ''2023-01-02T00:00Z'') []],
        Node ''TimeSeries'' None (Node ''mRID'' (Some ''1'') [] # series),
        Node ''Reason'' None [Node ''code'' (Some ''B19'') []]]"

definition text_or_empty :: "node \<Rightarrow> string" where
  "text_or_empty n = (case node_text n of None \<Rightarrow> [] | Some s \<Rightarrow> s)"

text \<open>
  The values of one field across the resource entries, in the order of the entries: an
  entry contributes its value when it has the field.
\<close>

definition field_values :: "'k \<Rightarrow> ('k, 'v) pydict list \<Rightarrow> 'v list" where
  "field_values key data =
     concat (map (\<lambda>entry. case map_of entry key of None \<Rightarrow> [] | Some v \<Rightarrow> [v]) data)"

definition collected :: "('k, 'v list) pydict \<Rightarrow> 'k \<Rightarrow> 'v list" where
  "collected result key = (case map_of result key of None \<Rightarrow> [] | Some vs \<Rightarrow> vs)"

text \<open>
  The reconciliation in the words of the specification: the positions between 1 and
  the greatest position that no record has, and the record that forward filling
  synthesizes for such a position, whose value is that of the last record at the
  nearest lower position. \<open>ks\<close> are the positions of the records of \<open>data\<close>.
\<close>

definition missing_positions :: "int list \<Rightarrow> int list" where
  "missing_positions ks = filter (\<lambda>p. p \<notin> set ks) [1..Max (set ks)]"

definition forward_fill :: "pyrec list \<Rightarrow> string \<Rightarrow> int list \<Rightarrow> int \<Rightarrow> pyrec" where
  "forward_fill data key ks p =
     (let prev = Max (set (filter (\<lambda>k. k < p) ks));
          source = last (filter (\<lambda>r. position_of r = Inr prev) data)
      in py_dict [(''position'', PyStr (py_str p)), (key, the (map_of source key))])"

text \<open>The position of a record whose position is an integer.\<close>

definition position_val :: "pyrec \<Rightarrow> int" where
  "position_val r = (case position_of r of Inr p \<Rightarrow> p | Inl e \<Rightarrow> 0)"

section \<open>Facts about dictionaries\<close>

lemma fst_set_update: "fst ` set (AList.update k v d) = insert k (fst ` set d)"
  by (induction d) auto

lemma py_dict_snoc: "py_dict (ps @ [(k, v)]) = AList.update k v (py_dict ps)"
  by (simp add: py_dict_def)

lemma distinct_py_dict: "distinct (map fst (py_dict ps))"
  by (induction ps rule: rev_induct) (auto simp: py_dict_def distinct_update)

lemma fst_set_py_dict: "fst ` set (py_dict ps) = fst ` set ps"
proof (induction ps rule: rev_induct)
  case Nil
  show ?case by (simp add: py_dict_def)
next
  case (snoc p ps)
  obtain k v where p: "p = (k, v)" by (cases p)
  show ?case unfolding p py_dict_snoc by (simp add: fst_set_update snoc)
qed

lemma map_of_py_dict: "map_of (py_dict ps) = map_of (rev ps)"
proof (induction ps rule: rev_induct)
  case Nil
  show ?case by (simp add: py_dict_def)
next
  case (snoc p ps)
  obtain k v where p: "p = (k, v)" by (cases p)
  show ?case unfolding p py_dict_snoc by (simp add: update_conv' snoc fun_eq_iff)
qed

lemma map_of_rev_last:
  "k \<in> f ` set cs \<Longrightarrow>
   map_of (rev (map (\<lambda>c. (f c, g c)) cs)) k = Some (g (last (filter (\<lambda>c. f c = k) cs)))"
proof (induction cs rule: rev_induct)
  case Nil
  then show ?case by simp
next
  case (snoc c cs)
  then show ?case by (cases "f c = k") auto
qed

lemma set_update_subset: "set (AList.update k v d) \<subseteq> insert (k, v) (set d)"
  by (induction d) auto

lemma set_py_dict_subset: "set (py_dict ps) \<subseteq> set ps"
proof (induction ps rule: rev_induct)
  case Nil
  show ?case by (simp add: py_dict_def)
next
  case (snoc p ps)
  obtain k v where p: "p = (k, v)" by (cases p)
  from set_update_subset [of k v "py_dict ps"] snoc show ?case
    unfolding p py_dict_snoc by auto
qed

section \<open>Facts about \<open>int\<close> and \<open>str\<close>\<close>

lemma is_digit_digit_char: "d < 10 \<Longrightarrow> is_digit (digit_char d)"
  by (simp add: is_digit_def digit_char_def Let_def)

lemma digit_val_digit_char: "d < 10 \<Longrightarrow> digit_val (digit_char d) = d"
  by (simp add: digit_val_def digit_char_def)

lemma str_nat_digits: "c \<in> set (str_nat n) \<Longrightarrow> is_digit c"
proof (induction n arbitrary: c rule: str_nat.induct)
  case (1 n)
  show ?case
  proof (cases "n < 10")
    case True
    with "1.prems" show ?thesis
      by (simp add: str_nat.simps [of n] is_digit_digit_char)
  next
    case False
    with "1.prems" have "c \<in> set (str_nat (n div 10)) \<or> c = digit_char (n mod 10)"
      by (auto simp: str_nat.simps [of n])
    then show ?thesis
    proof
      assume "c \<in> set (str_nat (n div 10))"
      with False show ?thesis by (simp add: "1.IH")
    next
      assume "c = digit_char (n mod 10)"
      then show ?thesis by (simp add: is_digit_digit_char)
    qed
  qed
qed

lemma str_nat_nonempty: "str_nat n \<noteq> []"
  by (simp add: str_nat.simps [of n])

lemma parse_digits_all_digits:
  "\<forall>c \<in> set ds. is_digit c \<Longrightarrow> ds \<noteq> [] \<or> prev \<Longrightarrow>
   parse_digits prev acc ds = Some (foldl (\<lambda>a c. 10 * a + digit_val c) acc ds)"
  by (induction ds arbitrary: prev acc) auto

lemma value_str_nat: "foldl (\<lambda>a c. 10 * a + digit_val c) 0 (str_nat n) = n"
proof (induction n rule: str_nat.induct)
  case (1 n)
  show ?case
  proof (cases "n < 10")
    case True
    then show ?thesis by (simp add: str_nat.simps [of n] digit_val_digit_char)
  next
    case False
    with "1.IH" have "foldl (\<lambda>a c. 10 * a + digit_val c) 0 (str_nat (n div 10)) = n div 10"
      by simp
    with False show ?thesis
      by (simp add: str_nat.simps [of n] digit_val_digit_char)
  qed
qed

lemma parse_digits_str_nat: "parse_digits False 0 (str_nat n) = Some n"
  using parse_digits_all_digits [of "str_nat n" False 0]
  by (simp add: str_nat_digits str_nat_nonempty value_str_nat)

lemma strip_no_space: "\<forall>c \<in> set s. \<not> is_space c \<Longrightarrow> strip s = s"
proof -
  assume a: "\<forall>c \<in> set s. \<not> is_space c"
  then have "dropWhile is_space s = s" by (cases s) auto
  moreover from a have "dropWhile is_space (rev s) = rev s" by (cases "rev s") auto
  ultimately show ?thesis by (simp add: strip_def)
qed

lemma digit_not_space: "is_digit c \<Longrightarrow> \<not> is_space c"
  by (auto simp: is_digit_def is_space_def Let_def)

lemma digit_not_sign: "is_digit c \<Longrightarrow> c \<noteq> CHR ''-'' \<and> c \<noteq> CHR ''+''"
  by (auto simp: is_digit_def Let_def)

lemma int_of_string_py_str: "int_of_string (py_str i) = Some i"
proof (cases "i < 0")
  case True
  have "\<forall>c \<in> set (CHR ''-'' # str_nat (nat (- i))). \<not> is_space c"
    using str_nat_digits digit_not_space by (auto simp: is_space_def)
  then have "strip (py_str i) = CHR ''-'' # str_nat (nat (- i))"
    using True by (simp add: py_str_def strip_no_space)
  with True show ?thesis
    by (simp add: int_of_string_def parse_digits_str_nat)
next
  case False
  obtain c cs where s: "str_nat (nat i) = c # cs"
    using str_nat_nonempty [of "nat i"] by (cases "str_nat (nat i)") auto
  have d: "is_digit c"
    using str_nat_digits [of c "nat i"] by (simp add: s)
  have "\<forall>c \<in> set (str_nat (nat i)). \<not> is_space c"
    using str_nat_digits digit_not_space by blast
  then have "strip (py_str i) = c # cs"
    using False by (simp add: py_str_def strip_no_space s)
  moreover have "parse_digits False 0 (c # cs) = Some (nat i)"
    using parse_digits_str_nat [of "nat i"] by (simp only: s)
  ultimately show ?thesis
    using False digit_not_sign [OF d] by (simp add: int_of_string_def)
qed

lemma py_int_py_str: "py_int (PyStr (py_str i)) = Inr i"
  by (simp add: py_int_def int_of_string_py_str)

section \<open>Facts about sorting and gap filling\<close>

lemma sort_keys_map: "sort_keys xs = Inr ks \<longleftrightarrow> map position_of xs = map Inr ks"
proof (induction xs arbitrary: ks)
  case Nil
  show ?case by auto
next
  case (Cons x xs)
  show ?case
  proof (cases ks)
    case Nil
    then show ?thesis by (simp split: sum.splits)
  next
    case (Cons k ks')
    with Cons.IH [of ks'] show ?thesis by (auto split: sum.splits)
  qed
qed

lemma sort_keys_length: "sort_keys xs = Inr ks \<Longrightarrow> length ks = length xs"
  using map_eq_imp_length_eq [of position_of xs Inr ks] by (simp add: sort_keys_map)

lemma sort_keys_append:
  "sort_keys xs = Inr a \<Longrightarrow> sort_keys ys = Inr b \<Longrightarrow> sort_keys (xs @ ys) = Inr (a @ b)"
  by (simp add: sort_keys_map)

lemma sort_keys_exists:
  "\<forall>r \<in> set xs. \<exists>k. position_of r = Inr k \<Longrightarrow> \<exists>ks. sort_keys xs = Inr ks"
proof (induction xs)
  case Nil
  show ?case by simp
next
  case (Cons x xs)
  then obtain k ks where "position_of x = Inr k" "sort_keys xs = Inr ks" by auto
  then show ?case by simp
qed

lemma sort_keys_zip:
  assumes "sort_keys xs = Inr ks" and "(k, x) \<in> set (zip ks xs)"
  shows "position_of x = Inr k"
proof -
  from assms(2) obtain i where i: "i < length xs" "i < length ks" "ks ! i = k" "xs ! i = x"
    by (auto simp: in_set_zip)
  from assms(1) have "map position_of xs ! i = map Inr ks ! i" by (simp add: sort_keys_map)
  with i show ?thesis by simp
qed

lemma sort_by_position_result:
  assumes "sort_keys data = Inr ks"
  shows "\<exists>d ks'. sort_by_position data = Inr d \<and> mset d = mset data \<and>
           sort_keys d = Inr ks' \<and> mset ks' = mset ks \<and> sorted ks'"
proof -
  let ?zs = "sort_key fst (zip ks data)"
  have len: "length ks = length data" using assms by (rule sort_keys_length)
  have s: "sort_by_position data = Inr (map snd ?zs)"
    using assms by (simp add: sort_by_position_def)
  have "mset (map snd ?zs) = mset (map snd (zip ks data))"
    by simp
  with len have m: "mset (map snd ?zs) = mset data" by simp
  have "mset (map fst ?zs) = mset (map fst (zip ks data))"
    by simp
  with len have mk: "mset (map fst ?zs) = mset ks" by simp
  have "map position_of (map snd ?zs) = map Inr (map fst ?zs)"
    using sort_keys_zip [OF assms] by auto
  then have k: "sort_keys (map snd ?zs) = Inr (map fst ?zs)" by (simp only: sort_keys_map)
  have "sorted (map fst ?zs)" by (rule sorted_sort_key)
  with s m k mk show ?thesis by blast
qed

lemma sort_by_position_mset: "sort_by_position data = Inr d \<Longrightarrow> mset d = mset data"
proof -
  assume a: "sort_by_position data = Inr d"
  then obtain ks where "sort_keys data = Inr ks"
    by (auto simp: sort_by_position_def split: sum.splits)
  from sort_by_position_result [OF this] a show ?thesis by auto
qed

lemma sort_by_position_sorted:
  "sort_keys data = Inr ks \<Longrightarrow> sorted ks \<Longrightarrow> sort_by_position data = Inr data"
proof -
  assume k: "sort_keys data = Inr ks" and s: "sorted ks"
  from k have len: "length ks = length data" by (rule sort_keys_length)
  with s have "sorted (map fst (zip ks data))" by simp
  then have "sort_key fst (zip ks data) = zip ks data" by (rule sort_key_id_if_sorted)
  with k len show ?thesis by (simp add: sort_by_position_def)
qed

lemma complete_data_items_result:
  assumes "sort_keys d = Inr ks" and "\<forall>r \<in> set d. map_of r key \<noteq> None"
  shows "\<exists>items. complete_data_items d key = Inr items \<and> map fst items = ks \<and>
           (\<forall>(p, v) \<in> set items. \<exists>r \<in> set d. position_of r = Inr p \<and> map_of r key = Some v)"
  using assms
proof (induction d arbitrary: ks)
  case Nil
  then show ?case by simp
next
  case (Cons r d)
  from Cons.prems(1) obtain k ks' where k: "position_of r = Inr k"
    and ks': "sort_keys d = Inr ks'" and ks: "ks = k # ks'"
    by (auto split: sum.splits)
  from Cons.prems(2) obtain v where v: "map_of r key = Some v" by auto
  from Cons.prems(2) have "\<forall>r \<in> set d. map_of r key \<noteq> None" by simp
  from Cons.IH [OF ks' this] obtain items where
    i: "complete_data_items d key = Inr items" "map fst items = ks'"
       "\<forall>(p, v) \<in> set items. \<exists>r \<in> set d. position_of r = Inr p \<and> map_of r key = Some v"
    by blast
  have "complete_data_items (r # d) key = Inr ((k, v) # items)"
    by (simp add: k v i(1) getitem_def)
  moreover have "map fst ((k, v) # items) = ks" by (simp add: i(2) ks)
  moreover have "\<forall>(p, v) \<in> set ((k, v) # items).
      \<exists>r' \<in> set (r # d). position_of r' = Inr p \<and> map_of r' key = Some v"
    using i(3) k v by auto
  ultimately show ?case by blast
qed

lemma fold_max_Max: "fold max ys (x::int) = Max (set (x # ys))"
  by (simp only: Max.set_eq_fold)

lemma py_max_nonempty: "xs \<noteq> [] \<Longrightarrow> py_max xs = Inr (Max (set xs))"
  by (cases xs) (simp_all add: py_max_def fold_max_Max del: set_simps)

lemma py_max_default_in: "xs \<noteq> [] \<Longrightarrow> py_max_default xs d \<in> set xs"
proof (cases xs)
  case Nil
  assume "xs \<noteq> []"
  with Nil show ?thesis by simp
next
  case (Cons x ys)
  have "Max (set (x # ys)) \<in> set (x # ys)" by (rule Max_in) simp_all
  then show ?thesis by (simp only: Cons py_max_default_def list.case fold_max_Max)
qed

lemma fill_missing_appends: "\<exists>extra. snd (fill_missing cd key ps data) = data @ extra"
proof (induction ps arbitrary: data)
  case Nil
  show ?case by simp
next
  case (Cons p ps)
  show ?case
  proof (cases "p \<in> set (keys cd)")
    case True
    with Cons.IH [of data] show ?thesis by simp
  next
    case False
    let ?prev = "py_max_default (filter (\<lambda>x. x < p) (keys cd)) 0"
    show ?thesis
    proof (cases "getitem cd ?prev")
      case (Inl e)
      with False show ?thesis by (simp add: Let_def)
    next
      case (Inr v)
      from Cons.IH [of "data @ [py_dict [(''position'', PyStr (py_str p)), (key, v)]]"]
      obtain extra where
        "snd (fill_missing cd key ps (data @ [py_dict [(''position'', PyStr (py_str p)), (key, v)]]))
           = data @ [py_dict [(''position'', PyStr (py_str p)), (key, v)]] @ extra"
        by auto
      with False Inr show ?thesis by (simp add: Let_def)
    qed
  qed
qed

lemma fill_missing_dense:
  "set ps \<subseteq> set (keys cd) \<Longrightarrow> fill_missing cd key ps data = (None, data)"
  by (induction ps arbitrary: data) auto

lemma sort_by_position_stable:
  assumes "sort_by_position data = Inr d"
  shows "filter (\<lambda>r. position_of r = Inr k) d = filter (\<lambda>r. position_of r = Inr k) data"
proof -
  from assms obtain ks where ks: "sort_keys data = Inr ks"
    and d: "d = map snd (sort_key fst (zip ks data))"
    by (auto simp: sort_by_position_def split: sum.splits)
  have len: "length ks = length data" using ks by (rule sort_keys_length)
  have z: "(position_of (snd z) = Inr k) = (fst z = k)" if "z \<in> set (zip ks data)" for z
    using sort_keys_zip [OF ks, of "fst z" "snd z"] that by auto
  have "filter (\<lambda>r. position_of r = Inr k) d
          = map snd (filter (\<lambda>z. position_of (snd z) = Inr k) (sort_key fst (zip ks data)))"
    by (simp add: d filter_map o_def)
  also have "filter (\<lambda>z. position_of (snd z) = Inr k) (sort_key fst (zip ks data))
          = filter (\<lambda>z. fst z = k) (sort_key fst (zip ks data))"
    by (rule filter_cong) (simp_all add: z)
  also have "\<dots> = filter (\<lambda>z. fst z = k) (zip ks data)"
    by (rule sort_key_stable)
  also have "\<dots> = filter (\<lambda>z. position_of (snd z) = Inr k) (zip ks data)"
    by (rule filter_cong) (simp_all add: z)
  also have "map snd \<dots> = filter (\<lambda>r. position_of r = Inr k) (map snd (zip ks data))"
    by (simp add: filter_map o_def)
  finally show ?thesis using len by simp
qed

lemma complete_data_items_map:
  "complete_data_items d key = Inr items \<Longrightarrow>
   items = map (\<lambda>r. (position_val r, the (map_of r key))) d \<and>
   (\<forall>r \<in> set d. position_of r = Inr (position_val r))"
proof (induction d arbitrary: items)
  case Nil
  then show ?case by simp
next
  case (Cons r d)
  from Cons.prems obtain p v items' where p: "position_of r = Inr p"
    and v: "getitem r key = Inr v" and i: "complete_data_items d key = Inr items'"
    and items: "items = (p, v) # items'"
    by (auto split: sum.splits)
  from v have "map_of r key = Some v" by (simp add: getitem_def split: option.splits)
  with p items Cons.IH [OF i] show ?case by (simp add: position_val_def)
qed

lemma py_max_result: "py_max xs = Inr m \<Longrightarrow> xs \<noteq> [] \<and> m = Max (set xs)"
  by (cases xs) (auto simp: py_max_def fold_max_Max simp del: set_simps)

lemma py_max_default_nonempty: "xs \<noteq> [] \<Longrightarrow> py_max_default xs d = Max (set xs)"
  by (cases xs) (simp_all add: py_max_default_def fold_max_Max del: set_simps)

lemma fill_missing_normal:
  assumes "fill_missing cd key ps data = (None, d)"
  shows "d = data @
           map (\<lambda>p. py_dict [(''position'', PyStr (py_str p)),
                  (key, the (map_of cd (py_max_default (filter (\<lambda>x. x < p) (keys cd)) 0)))])
             (filter (\<lambda>p. p \<notin> set (keys cd)) ps) \<and>
         (\<forall>p \<in> set ps. p \<notin> set (keys cd) \<longrightarrow>
            py_max_default (filter (\<lambda>x. x < p) (keys cd)) 0 \<in> set (keys cd))"
  using assms
proof (induction ps arbitrary: data)
  case Nil
  then show ?case by simp
next
  case (Cons p ps)
  show ?case
  proof (cases "p \<in> set (keys cd)")
    case True
    with Cons.prems have "fill_missing cd key ps data = (None, d)" by simp
    from Cons.IH [OF this] True show ?thesis by simp
  next
    case False
    let ?prev = "py_max_default (filter (\<lambda>x. x < p) (keys cd)) 0"
    show ?thesis
    proof (cases "map_of cd ?prev")
      case None
      with False Cons.prems show ?thesis by (simp add: getitem_def Let_def)
    next
      case (Some v)
      let ?r = "py_dict [(''position'', PyStr (py_str p)), (key, v)]"
      from Some have "(?prev, v) \<in> set cd" by (rule map_of_SomeD)
      then have "?prev \<in> fst ` set cd" by (rule rev_image_eqI) simp
      then have in_keys: "?prev \<in> set (keys cd)" by (simp add: keys_def)
      from False Some Cons.prems have "fill_missing cd key ps (data @ [?r]) = (None, d)"
        by (simp add: getitem_def Let_def)
      from Cons.IH [OF this] False Some in_keys show ?thesis by simp
    qed
  qed
qed

section \<open>Reconciliation of a sparse series\<close>

text \<open>
  C1. Points at positions 1 and 3 with values a and c, reconciled to length 4: the
  result has the four values a, a, c, c, the gap at 2 filled from 1 and the tail padded
  with the last value. The padded record is numbered from 1 again (\<open>str(i + 1)\<close>), so
  its position is 1 and not 4.
\<close>

theorem get_Period_data_example:
  "get_Period_data (Node ''Period'' None [point ''1'' ''a'', point ''3'' ''c'']) 4
     = Inr [row ''1'' ''a'', row ''2'' ''a'', row ''3'' ''c'', row ''1'' ''c'']"
  by code_simp

section \<open>The length of the reconciled series\<close>

lemma map_of_synthesized: "map_of (py_dict [(k, x), (key, v)]) key = Some v"
  by (simp add: map_of_py_dict)

lemma position_of_synthesized:
  assumes "key \<noteq> ''position'' \<or> (\<exists>n. py_int v = Inr n)"
  shows "\<exists>k. position_of (py_dict [(''position'', PyStr (py_str p)), (key, v)]) = Inr k"
proof (cases "key = ''position''")
  case True
  with assms obtain n where "py_int v = Inr n" by auto
  with True show ?thesis
    by (simp add: position_of_def getitem_def map_of_py_dict)
next
  case False
  then show ?thesis
    by (simp add: position_of_def getitem_def map_of_py_dict py_int_py_str)
qed

lemma fill_missing_result:
  assumes one: "1 \<in> set (keys cd)"
    and ps: "\<forall>p \<in> set ps. 1 \<le> p"
    and vals: "\<forall>v \<in> snd ` set cd. key \<noteq> ''position'' \<or> (\<exists>n. py_int v = Inr n)"
  shows "\<exists>extra. fill_missing cd key ps data = (None, data @ extra) \<and>
           length extra = length (filter (\<lambda>p. p \<notin> set (keys cd)) ps) \<and>
           (\<forall>r \<in> set extra. (\<exists>k. position_of r = Inr k) \<and> map_of r key \<noteq> None)"
  using ps
proof (induction ps arbitrary: data)
  case Nil
  show ?case by simp
next
  case (Cons p ps)
  from Cons.prems have p1: "1 \<le> p" and rest: "\<forall>p \<in> set ps. 1 \<le> p" by simp_all
  show ?case
  proof (cases "p \<in> set (keys cd)")
    case True
    with Cons.IH [OF rest, of data] show ?thesis by simp
  next
    case False
    let ?lower = "filter (\<lambda>x. x < p) (keys cd)"
    let ?prev = "py_max_default ?lower 0"
    from False one have "p \<noteq> 1" by auto
    with p1 have "1 < p" by simp
    with one have "?lower \<noteq> []" by (auto simp: filter_empty_conv)
    from py_max_default_in [OF this] have "?prev \<in> set (keys cd)" by simp
    then have "map_of cd ?prev \<noteq> None"
      by (simp add: keys_def map_of_eq_None_iff)
    then obtain v where v: "map_of cd ?prev = Some v" by auto
    then have "(?prev, v) \<in> set cd" by (rule map_of_SomeD)
    then have "v \<in> snd ` set cd" by (rule rev_image_eqI) simp
    with vals have ok: "key \<noteq> ''position'' \<or> (\<exists>n. py_int v = Inr n)" by blast
    let ?r = "py_dict [(''position'', PyStr (py_str p)), (key, v)]"
    from Cons.IH [OF rest, of "data @ [?r]"] obtain extra where
      e: "fill_missing cd key ps (data @ [?r]) = (None, (data @ [?r]) @ extra)"
      and l: "length extra = length (filter (\<lambda>p. p \<notin> set (keys cd)) ps)"
      and r: "\<forall>r \<in> set extra. (\<exists>k. position_of r = Inr k) \<and> map_of r key \<noteq> None"
      by blast
    have "fill_missing cd key (p # ps) data = (None, data @ (?r # extra))"
      using False v e by (simp add: getitem_def Let_def)
    moreover have "length (?r # extra) = length (filter (\<lambda>p. p \<notin> set (keys cd)) (p # ps))"
      using False l by simp
    moreover have "\<forall>r \<in> set (?r # extra). (\<exists>k. position_of r = Inr k) \<and> map_of r key \<noteq> None"
      using r position_of_synthesized [OF ok, of p] by (simp add: map_of_synthesized)
    ultimately show ?thesis by blast
  qed
qed

lemma check_period_data_missing_result:
  assumes ks: "sort_keys data = Inr ks"
    and key: "\<forall>r \<in> set data. map_of r key \<noteq> None"
    and one: "1 \<in> set ks"
    and pos: "\<forall>k \<in> set ks. 1 \<le> k"
  shows "\<exists>d. check_period_data_missing data key = (None, d) \<and>
           length d = length data + length (filter (\<lambda>p. p \<notin> set ks) [1..Max (set ks)]) \<and>
           (\<forall>r \<in> set d. map_of r key \<noteq> None)"
proof -
  from sort_by_position_result [OF ks] obtain d1 ks1 where
    s1: "sort_by_position data = Inr d1" and m1: "mset d1 = mset data"
    and k1: "sort_keys d1 = Inr ks1" and mk: "mset ks1 = mset ks"
    by blast
  from m1 have set1: "set d1 = set data" by (rule mset_eq_setD)
  from m1 have len1: "length d1 = length data" by (rule mset_eq_length)
  from mk have setk: "set ks1 = set ks" by (rule mset_eq_setD)
  from key set1 have key1: "\<forall>r \<in> set d1. map_of r key \<noteq> None" by simp
  from complete_data_items_result [OF k1 key1] obtain items where
    i: "complete_data_items d1 key = Inr items" and f: "map fst items = ks1"
    and iv: "\<forall>(p, v) \<in> set items. \<exists>r \<in> set d1. position_of r = Inr p \<and> map_of r key = Some v"
    by blast
  define cd where "cd = py_dict items"
  have "fst ` set cd = set (map fst items)"
    by (simp add: cd_def fst_set_py_dict)
  then have kcd: "set (keys cd) = set ks" by (simp add: keys_def f setk)
  with one have "keys cd \<noteq> []" by auto
  then have mx: "py_max (keys cd) = Inr (Max (set ks))"
    by (simp add: py_max_nonempty kcd)
  have vals: "\<forall>v \<in> snd ` set cd. key \<noteq> ''position'' \<or> (\<exists>n. py_int v = Inr n)"
  proof
    fix v assume "v \<in> snd ` set cd"
    then obtain p where "(p, v) \<in> set cd" by auto
    with set_py_dict_subset [of items] have "(p, v) \<in> set items" by (auto simp: cd_def)
    with iv obtain r where r: "position_of r = Inr p" "map_of r key = Some v" by blast
    show "key \<noteq> ''position'' \<or> (\<exists>n. py_int v = Inr n)"
    proof (cases "key = ''position''")
      case True
      with r have "py_int v = Inr p" by (simp add: position_of_def getitem_def)
      then show ?thesis by blast
    next
      case False
      then show ?thesis by simp
    qed
  qed
  have one': "1 \<in> set (keys cd)" using one kcd by simp
  have "\<forall>p \<in> set [1..Max (set ks)]. 1 \<le> p" by simp
  from fill_missing_result [OF one' this vals, of d1] obtain extra where
    fm: "fill_missing cd key [1..Max (set ks)] d1 = (None, d1 @ extra)"
    and le: "length extra = length (filter (\<lambda>p. p \<notin> set ks) [1..Max (set ks)])"
    and re: "\<forall>r \<in> set extra. (\<exists>k. position_of r = Inr k) \<and> map_of r key \<noteq> None"
    by (auto simp: kcd)
  from re have "\<forall>r \<in> set extra. \<exists>k. position_of r = Inr k" by blast
  from sort_keys_exists [OF this] obtain kse where "sort_keys extra = Inr kse" by blast
  with k1 have "sort_keys (d1 @ extra) = Inr (ks1 @ kse)" by (rule sort_keys_append)
  from sort_by_position_result [OF this] obtain d3 where
    s3: "sort_by_position (d1 @ extra) = Inr d3" and m3: "mset d3 = mset (d1 @ extra)"
    by blast
  from m3 have set3: "set d3 = set (d1 @ extra)" by (rule mset_eq_setD)
  from m3 have len3: "length d3 = length (d1 @ extra)" by (rule mset_eq_length)
  have c: "check_period_data_missing data key = (None, d3)"
    by (simp add: check_period_data_missing_def s1 i cd_def [symmetric] mx fm s3)
  have l: "length d3 = length data + length (filter (\<lambda>p. p \<notin> set ks) [1..Max (set ks)])"
    by (simp add: len3 len1 le)
  have k: "\<forall>r \<in> set d3. map_of r key \<noteq> None"
    using key1 re by (auto simp: set3)
  from c l k show ?thesis by blast
qed

lemma pad_records_result:
  "data \<noteq> [] \<Longrightarrow> map_of (last data) key \<noteq> None \<Longrightarrow>
   \<exists>rs. pad_records data key is = Inr rs \<and> length rs = length is"
  by (induction "is") (auto simp: getitem_def)

lemma missing_positions_count:
  assumes "distinct ks" and "\<forall>k \<in> set ks. 1 \<le> k" and "ks \<noteq> []"
  shows "int (length ks + length (filter (\<lambda>p. p \<notin> set ks) [1..Max (set ks)])) = Max (set ks)"
proof -
  let ?m = "Max (set ks)"
  have sub: "set ks \<subseteq> {1..?m}" using assms(2) by auto
  have "length (filter (\<lambda>p. p \<in> set ks) [1..?m]) = card ({p. p \<in> set ks} \<inter> set [1..?m])"
    by (rule distinct_length_filter) simp
  also have "{p. p \<in> set ks} \<inter> set [1..?m] = set ks" using sub by auto
  also have "card (set ks) = length ks" using assms(1) by (rule distinct_card)
  finally have a: "length (filter (\<lambda>p. p \<in> set ks) [1..?m]) = length ks" .
  have "length (filter (\<lambda>p. p \<in> set ks) [1..?m]) +
        length (filter (\<lambda>p. \<not> p \<in> set ks) [1..?m]) = length [1..?m]"
    by (rule sum_length_filter_compl)
  with a have "length ks + length (filter (\<lambda>p. p \<notin> set ks) [1..?m]) = nat ?m" by simp
  moreover from assms(3) have "?m \<in> set ks" by (intro Max_in) simp_all
  with assms(2) have "1 \<le> ?m" by blast
  ultimately show ?thesis by simp
qed

text \<open>
  Two Points with the same position 1 and required length 1: nothing is missing and
  nothing is padded, and both records are returned.
\<close>

theorem get_Period_data_duplicate_position:
  "get_Period_data (Node ''Period'' None [point ''1'' ''a'', point ''1'' ''b'']) 1
     = Inr [row ''1'' ''a'', row ''1'' ''b''] \<and>
   int (length [row ''1'' ''a'', row ''1'' ''b'']) \<noteq> 1"
  by code_simp

text \<open>
  C2, as the code has it. For a Period with at least one Point, whose records all have
  an integer position and the value field (the second field of the first record), with
  positions that are positive, pairwise distinct and include 1, and a required length
  that is at least the greatest position, \<open>get_Period_data\<close> returns a list of exactly
  the required length.
\<close>

theorem get_Period_data_length:
  assumes "data = map point_dict (xpath [''Point''] Period)"
    and "data \<noteq> []"
    and "drop 1 (keys (hd data)) = key # rest"
    and "\<forall>r \<in> set data. map_of r key \<noteq> None"
    and "sort_keys data = Inr ps"
    and "distinct ps" and "1 \<in> set ps" and "\<forall>p \<in> set ps. 1 \<le> p"
    and "Max (set ps) \<le> len"
  shows "\<exists>result. get_Period_data Period len = Inr result \<and> int (length result) = len"
proof -
  from check_period_data_missing_result [OF assms(5,4,7,8)] obtain d where
    c: "check_period_data_missing data key = (None, d)"
    and l: "length d = length data + length (filter (\<lambda>p. p \<notin> set ps) [1..Max (set ps)])"
    and k: "\<forall>r \<in> set d. map_of r key \<noteq> None"
    by blast
  from assms(5) have "length ps = length data" by (rule sort_keys_length)
  with assms(2) have "ps \<noteq> []" by auto
  from missing_positions_count [OF assms(6,8) this] l \<open>length ps = length data\<close>
  have ld: "int (length d) = Max (set ps)" by simp
  with assms(9) have le: "int (length d) \<le> len" by simp
  from l assms(2) have dne: "d \<noteq> []" by auto
  with k have "map_of (last d) key \<noteq> None" by simp
  from pad_records_result [OF dne this, of "[0..len - int (length d) - 1]"] obtain rs where
    p: "pad_records d key [0..len - int (length d) - 1] = Inr rs"
    and lr: "length rs = length [0..len - int (length d) - 1]"
    by blast
  from assms(2) obtain first others where d: "data = first # others" by (cases data) auto
  with assms(3) have kk: "drop (Suc 0) (keys first) = key # rest" by simp
  have g: "get_Period_data Period len = (if len \<noteq> int (length d) then Inr (d @ rs) else Inr d)"
    unfolding get_Period_data_def assms(1) [symmetric] Let_def
    unfolding d using c [unfolded d] p by (simp add: kk)
  show ?thesis
  proof (cases "len = int (length d)")
    case True
    with g show ?thesis by simp
  next
    case False
    with le lr have "int (length (d @ rs)) = len" by simp
    with g False show ?thesis by simp
  qed
qed

theorem get_Period_data_length_witness:
  "\<exists>result. get_Period_data (Node ''Period'' None [point ''3'' ''c'', point ''1'' ''a'']) 5
               = Inr result \<and> int (length result) = 5"
proof -
  let ?P = "Node ''Period'' None [point ''3'' ''c'', point ''1'' ''a'']"
  let ?data = "[row ''3'' ''c'', row ''1'' ''a'']"
  have d: "?data = map point_dict (xpath [''Point''] ?P)"
    by (simp add: xpath.simps xpath_step_def point_def row_def point_dict_def py_dict_def
          text_of_def)
  have ne: "?data \<noteq> []" by simp
  have k: "drop 1 (keys (hd ?data)) = ''quantity'' # []"
    by (simp add: keys_def row_def)
  have v: "\<forall>r \<in> set ?data. map_of r ''quantity'' \<noteq> None"
    by (simp add: row_def)
  have p: "sort_keys ?data = Inr [3, 1]"
    by code_simp
  have "distinct [3, 1 :: int]" "1 \<in> set [3, 1 :: int]" "\<forall>p \<in> set [3, 1 :: int]. 1 \<le> p"
    "Max (set [3, 1 :: int]) \<le> 5"
    by simp_all
  from get_Period_data_length [OF d ne k v p this] show ?thesis .
qed

section \<open>The half-open time index\<close>











section \<open>Outage documents without affected resources\<close>

lemma fst_set_delete: "fst ` set (AList.delete k d) \<subseteq> fst ` set d"
  by (induction d) auto

lemma prefixed_dict_keys:
  "k \<in> fst ` set (prefixed_dict prefix n) \<Longrightarrow> \<exists>t. k = prefix @ ''.'' @ t"
  by (auto simp: prefixed_dict_def fst_set_py_dict)

lemma get_infos_keys:
  assumes "get_infos Period = Inr infos" and "k \<in> fst ` set infos"
  shows "\<exists>t. k = ''TimeSeries.'' @ t"
proof -
  from assms(1) obtain n where
    i: "infos = AList.delete ''TimeSeries.Reason''
                 (AList.delete ''TimeSeries.Available_Period''
                   (AList.delete ''TimeSeries.Asset_RegisteredResource''
                     (prefixed_dict ''TimeSeries'' n)))"
    by (auto simp: get_infos_def split: list.splits)
  have d: "x \<in> fst ` set d" if "x \<in> fst ` set (AList.delete j d)"
    for x j :: string and d :: pyrec
    using fst_set_delete that by (rule subsetD)
  have "k \<in> fst ` set (prefixed_dict ''TimeSeries'' n)"
    by (rule d [OF d [OF d [OF assms(2) [unfolded i]]]])
  from prefixed_dict_keys [OF this] show ?thesis by simp
qed

lemma get_reason_keys:
  assumes "get_reason Period = Inr reason" and "k \<in> fst ` set reason"
  shows "\<exists>t. k = ''Reason.'' @ t"
proof -
  from assms(1) obtain n where
    r: "reason = AList.update ''Reason.text'' (PyStr []) (prefixed_dict ''Reason'' n) \<or>
        reason = prefixed_dict ''Reason'' n"
    by (auto simp: get_reason_def split: list.splits if_splits)
  have "k = ''Reason.text'' \<or> k \<in> fst ` set (prefixed_dict ''Reason'' n)"
  proof (rule disjE [OF r])
    assume "reason = AList.update ''Reason.text'' (PyStr []) (prefixed_dict ''Reason'' n)"
    with assms(2) have "k \<in> insert ''Reason.text'' (fst ` set (prefixed_dict ''Reason'' n))"
      by (simp only: fst_set_update)
    then show ?thesis by blast
  next
    assume "reason = prefixed_dict ''Reason'' n"
    with assms(2) show ?thesis by simp
  qed
  then show ?thesis
  proof
    assume "k = ''Reason.text''"
    then have "k = ''Reason.'' @ ''text''" by simp
    then show ?thesis by blast
  next
    assume "k \<in> fst ` set (prefixed_dict ''Reason'' n)"
    from prefixed_dict_keys [OF this] show ?thesis by simp
  qed
qed

lemma get_createdatetime_keys:
  assumes "get_createdatetime elem_str Period = Inr created"
  shows "fst ` set created = {''CreatedDateTime'', ''DocStatus'', ''RevisionNumber'', ''Resolution''}"
proof -
  from assms obtain a b c d where
    "created = py_dict [(''CreatedDateTime'', a), (''DocStatus'', b), (''RevisionNumber'', c),
                        (''Resolution'', d)]"
    by (auto simp: get_createdatetime_def Let_def split: sum.splits if_splits)
  then show ?thesis by (simp add: fst_set_py_dict)
qed

lemma outage_dataframe_assigned:
  assumes "outage_dataframe date_range now elem_str Period = Inr df"
  shows "\<exists>resource infos reason created.
           get_resource Period = Inr resource \<and> get_infos Period = Inr infos \<and>
           get_reason Period = Inr reason \<and> get_createdatetime elem_str Period = Inr created \<and>
           df_assigned df =
             (case resource of
                Some r \<Rightarrow> py_dict (r @ infos @ reason @ created)
              | None \<Rightarrow> py_dict (infos @ reason @ created))"
proof (cases "get_data date_range now Period")
  case (Inl e)
  with assms show ?thesis by (simp add: outage_dataframe_def)
next
  case gd: (Inr p)
  obtain index data where p: "p = (index, data)" by (cases p)
  show ?thesis
  proof (cases "get_resource Period")
    case (Inl e)
    with assms gd p show ?thesis by (simp add: outage_dataframe_def split: if_splits)
  next
    case gr: (Inr resource)
    show ?thesis
    proof (cases "get_infos Period")
      case (Inl e)
      with assms gd p gr show ?thesis by (simp add: outage_dataframe_def split: if_splits)
    next
      case gi: (Inr infos)
      show ?thesis
      proof (cases "get_reason Period")
        case (Inl e)
        with assms gd p gr gi show ?thesis by (simp add: outage_dataframe_def split: if_splits)
      next
        case gre: (Inr reason)
        show ?thesis
        proof (cases "get_createdatetime elem_str Period")
          case (Inl e)
          with assms gd p gr gi gre show ?thesis
            by (simp add: outage_dataframe_def split: if_splits)
        next
          case gc: (Inr created)
          with assms gd p gr gi gre show ?thesis
            by (auto simp: outage_dataframe_def split: if_splits)
        qed
      qed
    qed
  qed
qed

lemma getitem_absent: "k \<notin> fst ` set d \<Longrightarrow> getitem d k = Inl KeyError"
  by (cases "map_of d k") (auto simp: getitem_def dest: map_of_SomeD intro: rev_image_eqI)

text \<open>
  An outage document without any \<open>Asset_RegisteredResource\<close>: \<open>get_resource\<close> returns
  \<open>None\<close> and the table is assigned the series, reason and document fields only.
\<close>

theorem outage_without_resources:
  "get_resource (outage_document []) = Inr None \<and>
   outage_dataframe (\<lambda>s e f. Inr []) (0::int) text_or_empty (outage_document []) =
     Inr \<lparr>df_index = [0],
          df_data = [[(''position'', PyInt (- 1)), (''quantity'', PyInt 0)]],
          df_assigned =
            [(''TimeSeries.mRID'', PyStr ''1''),
             (''Reason.code'', PyStr ''B19''), (''Reason.text'', PyStr []),
             (''CreatedDateTime'', PyStr ''2023-01-01T00:00:00Z''),
             (''DocStatus'', PyNone), (''RevisionNumber'', PyNone),
             (''Resolution'', PyNone)]\<rparr>"
  by code_simp

text \<open>
  C4, as the code has it. For a document without any \<open>Asset_RegisteredResource\<close>,
  \<open>get_resource\<close> returns \<open>None\<close>, and the table that \<open>outage_dataframe\<close> builds
  carries none of the four placeholder fields: looking one up in the assigned columns
  is a \<open>KeyError\<close>.
\<close>

theorem zero_resources_no_placeholder:
  assumes "xpath [''TimeSeries'', ''Asset_RegisteredResource''] Period = []"
  shows "get_resource Period = Inr None \<and>
         (\<forall>df. outage_dataframe date_range now elem_str Period = Inr df \<longrightarrow>
               (\<forall>k \<in> set (keys resource_placeholder). getitem (df_assigned df) k = Inl KeyError))"
proof -
  have res: "get_resource Period = Inr None"
    using assms by (simp add: get_resource_def)
  have "getitem (df_assigned df) k = Inl KeyError"
    if df: "outage_dataframe date_range now elem_str Period = Inr df"
      and k: "k \<in> set (keys resource_placeholder)" for df k
  proof -
    from outage_dataframe_assigned [OF df] res obtain infos reason created where
      i: "get_infos Period = Inr infos" and r: "get_reason Period = Inr reason"
      and c: "get_createdatetime elem_str Period = Inr created"
      and a: "df_assigned df = py_dict (infos @ reason @ created)"
      by auto
    from k have hd: "hd k = CHR ''A''"
      by (auto simp: resource_placeholder_def keys_def)
    have "k \<notin> fst ` set infos"
    proof
      assume "k \<in> fst ` set infos"
      from get_infos_keys [OF i this] hd show False by auto
    qed
    moreover have "k \<notin> fst ` set reason"
    proof
      assume "k \<in> fst ` set reason"
      from get_reason_keys [OF r this] hd show False by auto
    qed
    moreover have "k \<notin> fst ` set created"
      using hd unfolding get_createdatetime_keys [OF c] by auto
    ultimately have "k \<notin> fst ` set (df_assigned df)"
      by (simp add: a fst_set_py_dict image_Un)
    then show ?thesis by (rule getitem_absent)
  qed
  with res show ?thesis by blast
qed

theorem zero_resources_no_placeholder_witness:
  "get_resource (outage_document [Node ''Available_Period'' None []]) = Inr None \<and>
   (\<exists>df. outage_dataframe (\<lambda>s e f. Inr []) (0::int) text_or_empty
            (outage_document [Node ''Available_Period'' None []]) = Inr df \<and>
         getitem (df_assigned df) ''Asset_RegisteredResource.mRID'' = Inl KeyError \<and>
         getitem (df_assigned df) ''Asset_RegisteredResource.name'' = Inl KeyError \<and>
         getitem (df_assigned df) ''Asset_RegisteredResource.asset_PSRType.psrType'' = Inl KeyError \<and>
         getitem (df_assigned df) ''Asset_RegisteredResource.location.name'' = Inl KeyError)"
proof -
  let ?doc = "outage_document [Node ''Available_Period'' None []]"
  have x: "xpath [''TimeSeries'', ''Asset_RegisteredResource''] ?doc = []"
    by (simp add: outage_document_def xpath_step_def xpath.simps)
  have "outage_dataframe (\<lambda>s e f. Inr []) (0::int) text_or_empty ?doc =
     Inr \<lparr>df_index = [0],
          df_data = [[(''position'', PyInt (- 1)), (''quantity'', PyInt 0)]],
          df_assigned =
            [(''TimeSeries.mRID'', PyStr ''1''),
             (''Reason.code'', PyStr ''B19''), (''Reason.text'', PyStr []),
             (''CreatedDateTime'', PyStr ''2023-01-01T00:00:00Z''),
             (''DocStatus'', PyNone), (''RevisionNumber'', PyNone),
             (''Resolution'', PyNone)]\<rparr>"
    by code_simp
  then obtain df where
    df: "outage_dataframe (\<lambda>s e f. Inr []) (0::int) text_or_empty ?doc = Inr df"
    by blast
  from zero_resources_no_placeholder [OF x, of "\<lambda>s e f. Inr []" "0::int" text_or_empty] df
  show ?thesis
    by (simp add: resource_placeholder_def keys_def)
qed

section \<open>Documents without data points\<close>

text \<open>
  A Period without any Point: \<open>data[0]\<close> raises an \<open>IndexError\<close> in
  \<open>get_Period_data\<close>.
\<close>

theorem get_Period_data_empty_raises:
  "get_Period_data (period ''2023-01-01T00:00Z'' ''2023-01-01T02:00Z'' ''PT60M'' []) 2
     = Inl IndexError"
  by (simp add: get_Period_data_def period_def xpath_step_def xpath.simps)

text \<open>
  C5, as the code has it. Without any Point, \<open>get_data\<close> returns the sentinel row
  (position -1, quantity 0) with the index of \<open>get_index\<close> and raises only what
  \<open>get_index\<close> raises; \<open>get_Period_data\<close> has no sentinel and raises an
  \<open>IndexError\<close>.
\<close>

theorem empty_points:
  "(xpath [''TimeSeries'', ''Available_Period'', ''Point''] Period = [] \<longrightarrow>
      get_data date_range now Period =
        (case get_index date_range now Period of
           Inl e \<Rightarrow> Inl e
         | Inr index \<Rightarrow> Inr (index, [[(''position'', PyInt (- 1)), (''quantity'', PyInt 0)]]))) \<and>
   (xpath [''Point''] Period = [] \<longrightarrow> get_Period_data Period len = Inl IndexError)"
  by (simp add: get_data_def get_Period_data_def split: sum.splits)

theorem empty_points_witness:
  "get_data (\<lambda>s e f. Inr []) (0::int) (outage_document [])
     = Inr ([0], [[(''position'', PyInt (- 1)), (''quantity'', PyInt 0)]]) \<and>
   get_Period_data (Node ''Period'' None []) 0 = Inl IndexError"
proof -
  have i: "get_index (\<lambda>s e f. Inr []) (0::int) (outage_document []) = Inr [0]"
    by (simp add: get_index_def outage_document_def xpath_step_def point_dict_def py_dict_def
          getitem_def text_of_def xpath.simps)
  have p: "xpath [''TimeSeries'', ''Available_Period'', ''Point''] (outage_document []) = []"
    by (simp add: outage_document_def xpath_step_def xpath.simps)
  have q: "xpath [''Point''] (Node ''Period'' None []) = []"
    by (simp add: xpath_step_def xpath.simps)
  from empty_points [where Period = "outage_document []" and now = "0::int"
      and date_range = "\<lambda>s e f. Inr []", THEN conjunct1, THEN mp, OF p]
    empty_points [where Period = "Node ''Period'' None []" and len = 0, THEN conjunct2, THEN mp, OF q]
  show ?thesis
    by (simp add: i)
qed

section \<open>Gap filling works in place\<close>

text \<open>
  A list given to \<open>check_period_data_missing\<close> out of order and with a gap: after the
  call the caller's list is sorted and holds the synthesized record as well.
\<close>

theorem check_period_data_missing_mutates:
  "check_period_data_missing [row ''3'' ''c'', row ''1'' ''a''] ''quantity''
     = (None, [row ''1'' ''a'', row ''2'' ''a'', row ''3'' ''c'']) \<and>
   [row ''1'' ''a'', row ''2'' ''a'', row ''3'' ''c''] \<noteq> [row ''3'' ''c'', row ''1'' ''a'']"
  by code_simp

lemma check_period_data_missing_superset:
  "mset data \<subseteq># mset (snd (check_period_data_missing data key))"
proof (cases "sort_by_position data")
  case (Inl e)
  then show ?thesis by (simp add: check_period_data_missing_def)
next
  case s1: (Inr data1)
  then have m1: "mset data1 = mset data" by (rule sort_by_position_mset)
  show ?thesis
  proof (cases "complete_data_items data1 key")
    case (Inl e)
    with s1 m1 show ?thesis by (simp add: check_period_data_missing_def)
  next
    case c: (Inr items)
    show ?thesis
    proof (cases "py_max (keys (py_dict items))")
      case (Inl e)
      with s1 c m1 show ?thesis by (simp add: check_period_data_missing_def)
    next
      case m: (Inr mx)
      obtain err data2 where f: "fill_missing (py_dict items) key [1..mx] data1 = (err, data2)"
        by (cases "fill_missing (py_dict items) key [1..mx] data1")
      from fill_missing_appends [of "py_dict items" key "[1..mx]" data1] f
      obtain extra where d2: "data2 = data1 @ extra" by auto
      have m2: "mset data \<subseteq># mset data2" by (simp add: d2 m1)
      show ?thesis
      proof (cases err)
        case (Some e)
        with s1 c m f m2 show ?thesis by (simp add: check_period_data_missing_def)
      next
        case None
        show ?thesis
        proof (cases "sort_by_position data2")
          case (Inl e)
          with s1 c m f None m2 show ?thesis by (simp add: check_period_data_missing_def)
        next
          case (Inr data3)
          then have "mset data3 = mset data2" by (rule sort_by_position_mset)
          with m2 have "mset data \<subseteq># mset data3" by simp
          with s1 c m f None Inr show ?thesis by (simp add: check_period_data_missing_def)
        qed
      qed
    qed
  qed
qed

lemma check_period_data_missing_steps:
  assumes "fst (check_period_data_missing data key) = None"
  shows "\<exists>d1 items m d2 d3.
           sort_by_position data = Inr d1 \<and> complete_data_items d1 key = Inr items \<and>
           py_max (keys (py_dict items)) = Inr m \<and>
           fill_missing (py_dict items) key [1..m] d1 = (None, d2) \<and>
           sort_by_position d2 = Inr d3 \<and> check_period_data_missing data key = (None, d3)"
  using assms
  by (auto simp: check_period_data_missing_def Let_def
        split: sum.splits option.splits prod.splits)

lemma check_period_data_missing_normal:
  assumes "fst (check_period_data_missing data key) = None"
  shows "\<exists>ks ks'. sort_keys data = Inr ks \<and>
           mset (snd (check_period_data_missing data key))
             = mset data + mset (map (forward_fill data key ks) (missing_positions ks)) \<and>
           sort_keys (snd (check_period_data_missing data key)) = Inr ks' \<and> sorted ks'"
proof -
  from check_period_data_missing_steps [OF assms] obtain d1 items m d2 d3 where
    s1: "sort_by_position data = Inr d1" and i: "complete_data_items d1 key = Inr items"
    and mx: "py_max (keys (py_dict items)) = Inr m"
    and fm: "fill_missing (py_dict items) key [1..m] d1 = (None, d2)"
    and s3: "sort_by_position d2 = Inr d3"
    and c: "check_period_data_missing data key = (None, d3)"
    by blast
  define cd where "cd = py_dict items"
  from s1 obtain ks where ks: "sort_keys data = Inr ks"
    by (auto simp: sort_by_position_def split: sum.splits)
  from sort_by_position_result [OF ks] s1 obtain ks1 where
    m1: "mset d1 = mset data" and k1: "sort_keys d1 = Inr ks1" and mk: "mset ks1 = mset ks"
    by auto
  from complete_data_items_map [OF i] have
    items: "items = map (\<lambda>r. (position_val r, the (map_of r key))) d1"
    and pv: "\<forall>r \<in> set d1. position_of r = Inr (position_val r)"
    by simp_all
  from k1 have "map position_of d1 = map Inr ks1" by (simp only: sort_keys_map)
  moreover from pv have "map position_of d1 = map Inr (map position_val d1)" by simp
  ultimately have "map Inr ks1 = (map Inr (map position_val d1) :: (error + int) list)"
    by simp
  then have ks1: "ks1 = map position_val d1"
    by (simp only: inj_map_eq_map [OF inj_Inr])
  have "fst ` set cd = fst ` set items" by (simp add: cd_def fst_set_py_dict)
  also have "\<dots> = set ks1" by (simp add: items ks1 image_image)
  also have "\<dots> = set ks" using mk by (rule mset_eq_setD)
  finally have kcd: "set (keys cd) = set ks" by (simp add: keys_def)
  from py_max_result [OF mx] have m: "m = Max (set ks)" by (simp add: cd_def [symmetric] kcd)
  let ?prev = "\<lambda>p. py_max_default (filter (\<lambda>x. x < p) (keys cd)) 0"
  let ?synth = "\<lambda>p. py_dict [(''position'', PyStr (py_str p)), (key, the (map_of cd (?prev p)))]"
  from fill_missing_normal [OF fm [folded cd_def]] have
    d2: "d2 = d1 @ map ?synth (filter (\<lambda>p. p \<notin> set (keys cd)) [1..m])"
    and pk: "\<forall>p \<in> set [1..m]. p \<notin> set (keys cd) \<longrightarrow> ?prev p \<in> set (keys cd)"
    by simp_all
  have miss: "filter (\<lambda>p. p \<notin> set (keys cd)) [1..m] = missing_positions ks"
    by (simp add: missing_positions_def kcd m)
  have synth: "?synth p = forward_fill data key ks p" if p: "p \<in> set (missing_positions ks)" for p
  proof -
    from p have p1: "1 \<le> p" and pm: "p \<in> set [1..m]" and pn: "p \<notin> set (keys cd)"
      by (simp_all add: missing_positions_def kcd m)
    from pk pm pn have in_keys: "?prev p \<in> set (keys cd)" by blast
    have ne: "filter (\<lambda>x. x < p) (keys cd) \<noteq> []"
    proof
      assume e: "filter (\<lambda>x. x < p) (keys cd) = []"
      then have "?prev p = 0" by (simp add: py_max_default_def)
      with in_keys have "0 \<in> set (keys cd)" by simp
      with p1 have "0 \<in> set (filter (\<lambda>x. x < p) (keys cd))" by simp
      with e show False by simp
    qed
    have "set (filter (\<lambda>x. x < p) (keys cd)) = set (filter (\<lambda>k. k < p) ks)"
      by (simp add: kcd)
    with py_max_default_nonempty [OF ne, of 0]
    have prev: "?prev p = Max (set (filter (\<lambda>k. k < p) ks))" by simp
    from in_keys have "?prev p \<in> position_val ` set d1"
      by (simp add: kcd ks1 mk [THEN mset_eq_setD, symmetric])
    from map_of_rev_last [OF this, of "\<lambda>r. the (map_of r key)"]
    have "map_of cd (?prev p)
            = Some (the (map_of (last (filter (\<lambda>r. position_val r = ?prev p) d1)) key))"
      by (simp add: cd_def map_of_py_dict items)
    moreover have "filter (\<lambda>r. position_val r = ?prev p) d1
                     = filter (\<lambda>r. position_of r = Inr (?prev p)) d1"
      by (rule filter_cong) (simp_all add: pv)
    moreover have "\<dots> = filter (\<lambda>r. position_of r = Inr (?prev p)) data"
      using s1 by (rule sort_by_position_stable)
    ultimately have v: "the (map_of cd (?prev p))
        = the (map_of (last (filter (\<lambda>r. position_of r = Inr (?prev p)) data)) key)"
      by simp
    show ?thesis
      by (simp only: forward_fill_def Let_def prev [symmetric] v [symmetric])
  qed
  have "map ?synth (missing_positions ks) = map (forward_fill data key ks) (missing_positions ks)"
    by (rule map_cong) (simp_all add: synth)
  with d2 miss have d2': "d2 = d1 @ map (forward_fill data key ks) (missing_positions ks)"
    by simp
  from s3 have "mset d3 = mset d2" by (rule sort_by_position_mset)
  with d2' m1 have ms: "mset d3 = mset data + mset (map (forward_fill data key ks) (missing_positions ks))"
    by simp
  from s3 obtain ks2 where "sort_keys d2 = Inr ks2"
    by (auto simp: sort_by_position_def split: sum.splits)
  from sort_by_position_result [OF this] s3 obtain ks' where
    "sort_keys d3 = Inr ks'" "sorted ks'"
    by auto
  with ks ms c show ?thesis by auto
qed

text \<open>
  C6, as the code has it. \<open>check_period_data_missing\<close> works on the caller's list in
  place. Whether the call returns or raises, every record of the original list is in
  the caller's list afterwards. When the call returns, the caller's list, which is the
  returned list, holds the original records together with exactly one synthesized
  record for every position missing between 1 and the greatest position, filled from
  the last record at the nearest lower position, and it is in ascending order of
  position.
\<close>

theorem check_period_data_missing_in_place:
  "mset data \<subseteq># mset (snd (check_period_data_missing data key)) \<and>
   (fst (check_period_data_missing data key) = None \<longrightarrow>
      (\<exists>ks ks'. sort_keys data = Inr ks \<and>
         mset (snd (check_period_data_missing data key))
           = mset data + mset (map (forward_fill data key ks) (missing_positions ks)) \<and>
         sort_keys (snd (check_period_data_missing data key)) = Inr ks' \<and> sorted ks'))"
  using check_period_data_missing_superset [of data key]
    check_period_data_missing_normal [of data key]
  by blast

theorem check_period_data_missing_in_place_witness:
  "mset [row ''3'' ''c'', row ''1'' ''a'']
     \<subseteq># mset (snd (check_period_data_missing [row ''3'' ''c'', row ''1'' ''a''] ''quantity'')) \<and>
   mset (snd (check_period_data_missing [row ''3'' ''c'', row ''1'' ''a''] ''quantity''))
     = mset [row ''3'' ''c'', row ''1'' ''a''] + mset [row ''2'' ''a''] \<and>
   (\<exists>ks'. sort_keys (snd (check_period_data_missing [row ''3'' ''c'', row ''1'' ''a''] ''quantity''))
            = Inr ks' \<and> sorted ks')"
proof -
  let ?data = "[row ''3'' ''c'', row ''1'' ''a'']"
  have n: "fst (check_period_data_missing ?data ''quantity'') = None"
    by code_simp
  have k: "sort_keys ?data = Inr [3, 1]"
    by code_simp
  have f: "map (forward_fill ?data ''quantity'' [3, 1]) (missing_positions [3, 1]) = [row ''2'' ''a'']"
    by code_simp
  from check_period_data_missing_in_place [of ?data "''quantity''"] n
  obtain ks ks' where
    a: "mset ?data \<subseteq># mset (snd (check_period_data_missing ?data ''quantity''))"
    and ks: "sort_keys ?data = Inr ks"
    and m: "mset (snd (check_period_data_missing ?data ''quantity''))
              = mset ?data + mset (map (forward_fill ?data ''quantity'' ks) (missing_positions ks))"
    and s: "sort_keys (snd (check_period_data_missing ?data ''quantity'')) = Inr ks'" "sorted ks'"
    by blast
  from ks k have "ks = [3, 1]" by simp
  with m f have "mset (snd (check_period_data_missing ?data ''quantity''))
                   = mset ?data + mset [row ''2'' ''a'']"
    by simp
  with a s show ?thesis by blast
qed

section \<open>Decomposition of a node\<close>

lemma fst_unfold_node: "fst (unfold_node n) = node_tag n"
  by (cases n) (simp add: unfold_node.simps)

text \<open>
  C7. \<open>unfold_node\<close> on a node without children returns the tag with the node's text.
  On a node with children it returns the tag with a dictionary whose keys are exactly
  the distinct tags of the children, and every such tag is mapped to the unfolding of
  the last child that bears it: a later child silently replaces an earlier one.
\<close>

theorem unfold_node_spec:
  "unfold_node (Node t x []) = (t, Leaf x) \<and>
   (cs \<noteq> [] \<longrightarrow>
     (\<exists>m. unfold_node (Node t x cs) = (t, Dict m) \<and>
          distinct (keys m) \<and>
          set (keys m) = node_tag ` set cs \<and>
          (\<forall>k \<in> node_tag ` set cs.
             map_of m k = Some (snd (unfold_node (last (filter (\<lambda>c. node_tag c = k) cs)))))))"
proof -
  have eq: "map unfold_node cs = map (\<lambda>c. (node_tag c, snd (unfold_node c))) cs"
    by (simp add: fst_unfold_node [symmetric])
  have ks: "fst ` set (py_dict (map unfold_node cs)) = node_tag ` set cs"
    by (simp add: fst_set_py_dict image_image fst_unfold_node)
  show ?thesis
    by (simp add: unfold_node.simps keys_def distinct_py_dict ks map_of_py_dict)
       (simp add: eq map_of_rev_last)
qed

theorem unfold_node_spec_witness:
  "\<exists>m. unfold_node (Node ''r'' None
           [Node ''a'' (Some ''1'') [], Node ''b'' (Some ''2'') [], Node ''a'' (Some ''3'') []])
         = (''r'', Dict m) \<and>
       set (keys m) = {''a'', ''b''} \<and>
       map_of m ''a'' = Some (Leaf (Some ''3'')) \<and>
       map_of m ''b'' = Some (Leaf (Some ''2''))"
  using unfold_node_spec [of "''r''" None
      "[Node ''a'' (Some ''1'') [], Node ''b'' (Some ''2'') [], Node ''a'' (Some ''3'') []]"]
  by (auto simp: unfold_node.simps)

section \<open>Reconciliation of a dense series\<close>

lemma check_period_data_missing_dense:
  assumes ks: "sort_keys data = Inr [1..int (length data)]"
    and ne: "data \<noteq> []"
    and key: "\<forall>r \<in> set data. map_of r key \<noteq> None"
  shows "check_period_data_missing data key = (None, data)"
proof -
  let ?n = "int (length data)"
  have s: "sort_by_position data = Inr data"
    using ks by (rule sort_by_position_sorted) simp
  from complete_data_items_result [OF ks key] obtain items where
    i: "complete_data_items data key = Inr items" and f: "map fst items = [1..?n]"
    by blast
  have "fst ` set (py_dict items) = set (map fst items)"
    by (simp add: fst_set_py_dict)
  then have k: "set (keys (py_dict items)) = {1..?n}"
    by (simp add: keys_def f)
  from ne have n: "1 \<le> ?n" by (cases data) simp_all
  with k have "keys (py_dict items) \<noteq> []" by auto
  moreover from n have "Max {1..?n} = ?n" by (intro Max_eqI) auto
  ultimately have m: "py_max (keys (py_dict items)) = Inr ?n"
    by (simp add: py_max_nonempty k)
  have fm: "fill_missing (py_dict items) key [1..?n] data = (None, data)"
    by (rule fill_missing_dense) (simp add: k)
  show ?thesis
    by (simp add: check_period_data_missing_def s i m fm)
qed

text \<open>
  C8. A Period whose Points are already dense and in order, with positions
  1, 2, ..., N, each carrying the value field that the first Point has as its second
  field: gap filling leaves the list of records as it is, and \<open>get_Period_data\<close> with
  length N returns exactly these records, in the same order.
\<close>

theorem get_Period_data_dense:
  assumes "data = map point_dict (xpath [''Point''] Period)"
    and "data \<noteq> []"
    and "drop 1 (keys (hd data)) = key # rest"
    and "\<forall>r \<in> set data. map_of r key \<noteq> None"
    and "sort_keys data = Inr [1..int (length data)]"
  shows "check_period_data_missing data key = (None, data) \<and>
         get_Period_data Period (int (length data)) = Inr data"
proof -
  have c: "check_period_data_missing data key = (None, data)"
    using assms(5,2,4) by (rule check_period_data_missing_dense)
  from assms(2) obtain first others where d: "data = first # others" by (cases data) auto
  with assms(3) have k: "drop (Suc 0) (keys first) = key # rest" by simp
  have "get_Period_data Period (int (length data)) = Inr data"
    unfolding get_Period_data_def assms(1) [symmetric] Let_def
    unfolding d using c [unfolded d] by (simp add: k)
  with c show ?thesis by simp
qed

theorem get_Period_data_dense_witness:
  "get_Period_data (Node ''Period'' None [point ''1'' ''a'', point ''2'' ''b'', point ''3'' ''c'']) 3
     = Inr [row ''1'' ''a'', row ''2'' ''b'', row ''3'' ''c'']"
proof -
  let ?P = "Node ''Period'' None [point ''1'' ''a'', point ''2'' ''b'', point ''3'' ''c'']"
  let ?data = "[row ''1'' ''a'', row ''2'' ''b'', row ''3'' ''c'']"
  have d: "?data = map point_dict (xpath [''Point''] ?P)"
    by (simp add: xpath.simps xpath_step_def point_def row_def point_dict_def py_dict_def
          text_of_def)
  have ne: "?data \<noteq> []" by simp
  have k: "drop 1 (keys (hd ?data)) = ''quantity'' # []"
    by (simp add: keys_def row_def)
  have v: "\<forall>r \<in> set ?data. map_of r ''quantity'' \<noteq> None"
    by (simp add: row_def)
  have p: "sort_keys ?data = Inr [1..int (length ?data)]"
    by code_simp
  from get_Period_data_dense [OF d ne k v p] show ?thesis by simp
qed

section \<open>The resolution table\<close>

lemma resolution_map_lookup:
  "(\<exists>freq. getitem resolution_map r = Inr freq) \<longleftrightarrow>
     r \<in> PyStr ` set [''P1Y'', ''P1M'', ''P7D'', ''P1D'', ''PT60M'', ''PT30M'', ''PT15M'', ''PT1M'']"
  by (auto simp: getitem_def resolution_map_def split: option.splits)

lemma getitem_cases: "getitem d k = Inl KeyError \<or> (\<exists>v. getitem d k = Inr v)"
  by (simp add: getitem_def split: option.splits)

text \<open>
  C9. Each of the eight resolution codes is found in \<open>resolution_map\<close>. For a Period
  that has its interval and a \<open>resolution\<close> element, \<open>get_Period_index\<close> raises a
  \<open>KeyError\<close> when the text of that element is none of the eight codes, whatever
  \<open>date_range\<close> would do; and with one of the eight codes the lookup lets the call go
  on to \<open>date_range\<close>.
\<close>

theorem resolution_table_complete:
  "(\<forall>code \<in> set [''P1Y'', ''P1M'', ''P7D'', ''P1D'', ''PT60M'', ''PT30M'', ''PT15M'', ''PT1M''].
      \<exists>freq. getitem resolution_map (PyStr code) = Inr freq) \<and>
   (timeInterval_text Period ''start'' = Inr start \<longrightarrow>
    timeInterval_text Period ''end'' = Inr end' \<longrightarrow>
    resolution_text Period = Inr resolution \<longrightarrow>
      (if resolution \<in> PyStr ` set [''P1Y'', ''P1M'', ''P7D'', ''P1D'', ''PT60M'', ''PT30M'', ''PT15M'', ''PT1M'']
       then \<exists>freq. getitem resolution_map resolution = Inr freq \<and>
              get_Period_index date_range Period =
                (case date_range start end' freq of
                   Inl e \<Rightarrow> Inl e
                 | Inr index \<Rightarrow> Inr (half_open index))
       else get_Period_index date_range Period = Inl KeyError))"
proof -
  have a: "\<forall>code \<in> set [''P1Y'', ''P1M'', ''P7D'', ''P1D'', ''PT60M'', ''PT30M'', ''PT15M'', ''PT1M''].
      \<exists>freq. getitem resolution_map (PyStr code) = Inr freq"
    by (simp add: getitem_def resolution_map_def)
  have b: "get_Period_index date_range Period = Inl KeyError"
    if "timeInterval_text Period ''start'' = Inr start"
       "timeInterval_text Period ''end'' = Inr end'"
       "resolution_text Period = Inr resolution"
       "resolution \<notin> PyStr ` set [''P1Y'', ''P1M'', ''P7D'', ''P1D'', ''PT60M'', ''PT30M'', ''PT15M'', ''PT1M'']"
  proof -
    from that(4) have "\<not> (\<exists>freq. getitem resolution_map resolution = Inr freq)"
      by (simp only: resolution_map_lookup not_False_eq_True)
    with getitem_cases [of resolution_map resolution]
    have "getitem resolution_map resolution = Inl KeyError" by blast
    with that(1-3) show ?thesis by (simp add: get_Period_index_def)
  qed
  have c: "\<exists>freq. getitem resolution_map resolution = Inr freq \<and>
              get_Period_index date_range Period =
                (case date_range start end' freq of
                   Inl e \<Rightarrow> Inl e
                 | Inr index \<Rightarrow> Inr (half_open index))"
    if "timeInterval_text Period ''start'' = Inr start"
       "timeInterval_text Period ''end'' = Inr end'"
       "resolution_text Period = Inr resolution"
       "resolution \<in> PyStr ` set [''P1Y'', ''P1M'', ''P7D'', ''P1D'', ''PT60M'', ''PT30M'', ''PT15M'', ''PT1M'']"
  proof -
    from that(4) obtain freq where "getitem resolution_map resolution = Inr freq"
      using resolution_map_lookup [of resolution] by blast
    with that(1-3) show ?thesis by (simp add: get_Period_index_def)
  qed
  from a b c show ?thesis by presburger
qed

theorem resolution_table_complete_witness:
  "get_Period_index (\<lambda>s e f. Inr (regular_sequence 0 120 60))
     (period ''2023-01-01T00:00Z'' ''2023-01-01T02:00Z'' ''PT5M'' []) = Inl KeyError"
  using resolution_table_complete
    [of "period ''2023-01-01T00:00Z'' ''2023-01-01T02:00Z'' ''PT5M'' []"
        "PyStr ''2023-01-01T00:00Z''" "PyStr ''2023-01-01T02:00Z''" "PyStr ''PT5M''"
        "\<lambda>s e f. Inr (regular_sequence 0 120 60)"]
  by (simp add: period_def timeInterval_text_def resolution_text_def child_def xpath_step_def
        text_of_def)

section \<open>Joining the affected resources\<close>

lemma map_of_setdefault_append:
  "map_of (setdefault_append k v r) k' =
     (if k' = k then Some (collected r k @ [v]) else map_of r k')"
proof (cases "map_of r k")
  case None
  then show ?thesis
    by (auto simp: setdefault_append_def collected_def map_add_def split: option.splits)
next
  case (Some vs)
  then show ?thesis
    by (simp add: setdefault_append_def collected_def update_conv')
qed

lemma distinct_setdefault_append:
  "distinct (map fst r) \<Longrightarrow> distinct (map fst (setdefault_append k v r))"
proof (cases "map_of r k")
  case None
  assume "distinct (map fst r)"
  moreover from None have "k \<notin> fst ` set r" by (simp add: map_of_eq_None_iff)
  ultimately show ?thesis by (simp add: setdefault_append_def None)
next
  case (Some vs)
  assume "distinct (map fst r)"
  then show ?thesis by (simp add: setdefault_append_def Some distinct_update)
qed

lemma collected_setdefault_append:
  "collected (setdefault_append k v r) k' =
     (if k' = k then collected r k @ [v] else collected r k')"
  by (simp add: collected_def map_of_setdefault_append)

lemma map_of_fold_entry:
  "distinct (map fst entry) \<Longrightarrow>
   map_of (foldl (\<lambda>r (key, v). setdefault_append key v r) r entry) k =
     (case map_of entry k of None \<Rightarrow> map_of r k | Some v \<Rightarrow> Some (collected r k @ [v]))"
proof (induction entry arbitrary: r)
  case Nil
  show ?case by simp
next
  case (Cons p entry)
  obtain k0 v0 where p: "p = (k0, v0)" by (cases p)
  from Cons.prems have d: "distinct (map fst entry)" and n: "k0 \<notin> fst ` set entry"
    by (simp_all add: p)
  from n have none: "map_of entry k0 = None" by (simp add: map_of_eq_None_iff)
  show ?case
    using Cons.IH [OF d, of "setdefault_append k0 v0 r"] none
    by (simp add: p map_of_setdefault_append collected_setdefault_append split: option.splits)
qed

lemma distinct_fold_entry:
  "distinct (map fst r) \<Longrightarrow>
   distinct (map fst (foldl (\<lambda>r (key, v). setdefault_append key v r) r entry))"
  by (induction entry arbitrary: r) (auto simp: distinct_setdefault_append)

lemma collected_fold_entry:
  "distinct (map fst entry) \<Longrightarrow>
   collected (foldl (\<lambda>r (key, v). setdefault_append key v r) r entry) k =
     collected r k @ (case map_of entry k of None \<Rightarrow> [] | Some v \<Rightarrow> [v])"
  by (simp add: collected_def [of "foldl _ _ _"] map_of_fold_entry split: option.splits)
     (simp add: collected_def)

lemma map_of_fold_entries:
  "\<forall>entry \<in> set data. distinct (map fst entry) \<Longrightarrow>
   map_of (foldl (\<lambda>result entry. foldl (\<lambda>r (key, v). setdefault_append key v r) result entry)
             r data) k =
     (if field_values k data = [] then map_of r k
      else Some (collected r k @ field_values k data))"
proof (induction data arbitrary: r)
  case Nil
  show ?case by (simp add: field_values_def)
next
  case (Cons d data)
  from Cons.prems have dd: "distinct (map fst d)"
    and rest: "\<forall>entry \<in> set data. distinct (map fst entry)" by simp_all
  have fv: "field_values k (d # data) =
      (case map_of d k of None \<Rightarrow> [] | Some v \<Rightarrow> [v]) @ field_values k data"
    by (simp add: field_values_def)
  show ?case
    using Cons.IH [OF rest, of "foldl (\<lambda>r (key, v). setdefault_append key v r) r d"]
    by (simp add: fv map_of_fold_entry [OF dd] collected_fold_entry [OF dd]
          split: option.splits)
qed

lemma distinct_fold_entries:
  "distinct (map fst r) \<Longrightarrow>
   distinct (map fst (foldl (\<lambda>result entry.
      foldl (\<lambda>r (key, v). setdefault_append key v r) result entry) r data))"
  by (induction data arbitrary: r) (auto simp: distinct_fold_entry)

lemma map_of_collect_entries:
  "\<forall>entry \<in> set data. distinct (map fst entry) \<Longrightarrow>
   map_of (collect_entries data) k =
     (if field_values k data = [] then None else Some (field_values k data))"
  by (simp add: collect_entries_def map_of_fold_entries collected_def)

lemma distinct_collect_entries: "distinct (map fst (collect_entries data))"
  by (simp add: collect_entries_def distinct_fold_entries)

lemma set_field_values:
  assumes "v \<in> set (field_values k data)"
  shows "\<exists>entry \<in> set data. (k, v) \<in> set entry"
proof -
  from assms obtain entry where e: "entry \<in> set data" and m: "Some v = map_of entry k"
    by (auto simp: field_values_def split: option.splits)
  from m [symmetric] have "(k, v) \<in> set entry" by (rule map_of_SomeD)
  with e show ?thesis by (rule rev_bexI)
qed

lemma str_items_strings: "str_items (map PyStr ss) = Inr ss"
  by (induction ss) auto

lemma strings_map_PyStr: "\<forall>v \<in> set vs. \<exists>s. v = PyStr s \<Longrightarrow> \<exists>ss. vs = map PyStr ss"
proof (induction vs)
  case Nil
  show ?case by simp
next
  case (Cons v vs)
  then obtain s ss where "v = PyStr s" "vs = map PyStr ss" by auto
  then have "v # vs = map PyStr (s # ss)" by simp
  then show ?case by (rule exI [of _ "s # ss"])
qed

lemma join_values_strings:
  assumes "\<forall>(k, vs) \<in> set r. \<exists>ss. vs = map PyStr ss"
  shows "\<exists>res. join_values r = Inr res \<and>
           (\<forall>k. map_of r k = None \<longrightarrow> map_of res k = None) \<and>
           (\<forall>k ss. map_of r k = Some (map PyStr ss) \<longrightarrow>
                   map_of res k = Some (PyStr (intercalate '', '' ss)))"
  using assms
proof (induction r)
  case Nil
  show ?case by simp
next
  case (Cons p r)
  obtain k0 vs0 where p: "p = (k0, vs0)" by (cases p)
  from Cons.prems obtain ss0 where vs0: "vs0 = map PyStr ss0" by (auto simp: p)
  from Cons.prems have "\<forall>(k, vs) \<in> set r. \<exists>ss. vs = map PyStr ss" by simp
  from Cons.IH [OF this] obtain res where
    res: "join_values r = Inr res"
    and none: "\<And>k. map_of r k = None \<Longrightarrow> map_of res k = None"
    and some: "\<And>k ss. map_of r k = Some (map PyStr ss) \<Longrightarrow>
                 map_of res k = Some (PyStr (intercalate '', '' ss))"
    by blast
  have j: "join_values (p # r) = Inr ((k0, PyStr (intercalate '', '' ss0)) # res)"
    by (simp add: p vs0 py_join_def str_items_strings res)
  have inj: "inj PyStr" by (simp add: inj_on_def)
  show ?case
    unfolding j by (simp add: p vs0 none some inj_map_eq_map [OF inj])
qed

lemma prefixed_dict_values:
  assumes "(k, v) \<in> set (prefixed_dict prefix p)"
    and "\<forall>c \<in> set (getchildren p). node_text c \<noteq> None"
  shows "\<exists>s. v = PyStr s"
proof -
  from assms(1) set_py_dict_subset
  have "(k, v) \<in> set (map (\<lambda>datum. (prefix @ ''.'' @ node_tag datum, text_of datum)) (getchildren p))"
    unfolding prefixed_dict_def by (rule rev_subsetD)
  then obtain c where c: "c \<in> set (getchildren p)" and v: "v = text_of c" by auto
  from assms(2) c obtain s where "node_text c = Some s" by auto
  with v show ?thesis by (simp add: text_of_def)
qed

lemma get_resource_nonempty:
  assumes "xpath [''TimeSeries'', ''Asset_RegisteredResource''] Period \<noteq> []"
  shows "get_resource Period =
     (case join_values (collect_entries (map (prefixed_dict ''Asset_RegisteredResource'')
              (xpath [''TimeSeries'', ''Asset_RegisteredResource''] Period))) of
        Inl e \<Rightarrow> Inl e
      | Inr result \<Rightarrow> Inr (Some result))"
proof -
  define ps where "ps = xpath [''TimeSeries'', ''Asset_RegisteredResource''] Period"
  from assms have ne: "ps \<noteq> []" by (simp add: ps_def)
  then obtain t ts where ps: "ps = t # ts" by (cases ps) auto
  show ?thesis
    unfolding get_resource_def ps_def [symmetric]
    by (simp add: ps)
qed

text \<open>
  Two resource entries with \<open>mRID\<close> R1 and R2, the second with a \<open>name\<close> element
  that has no text: \<open>', '.join\<close> meets \<open>None\<close> among the names and raises a
  \<open>TypeError\<close>, so no merged field is produced.
\<close>

theorem get_resource_field_without_text:
  "get_resource (outage_document
      [resource ''R1'' ''A'',
       Node ''Asset_RegisteredResource'' None
         [Node ''mRID'' (Some ''R2'') [], Node ''name'' None []]])
     = Inl TypeError"
  by code_simp

text \<open>
  C10, as the code has it. When the document has resource entries and each of their
  fields has a text, \<open>get_resource\<close> returns a dictionary in which every field holds
  the texts of that field across all entries, in the entries' order, joined with a
  comma and a blank; a field that no entry has is not a key. Two such entries with
  \<open>mRID\<close> R1 and R2 give \<open>Asset_RegisteredResource.mRID\<close> the value \<open>R1, R2\<close>.
\<close>

theorem get_resource_join:
  assumes "entries = map (prefixed_dict ''Asset_RegisteredResource'')
                       (xpath [''TimeSeries'', ''Asset_RegisteredResource''] Period)"
    and "entries \<noteq> []"
    and "\<forall>p \<in> set (xpath [''TimeSeries'', ''Asset_RegisteredResource''] Period).
           \<forall>c \<in> set (getchildren p). node_text c \<noteq> None"
  shows "\<exists>result. get_resource Period = Inr (Some result) \<and>
           (\<forall>key ss. field_values key entries = map PyStr ss \<longrightarrow>
              map_of result key =
                (if ss = [] then None else Some (PyStr (intercalate '', '' ss))))"
proof -
  define ps where "ps = xpath [''TimeSeries'', ''Asset_RegisteredResource''] Period"
  define pre where "pre = ''Asset_RegisteredResource''"
  have entries: "entries = map (prefixed_dict pre) ps"
    using assms(1) by (simp add: ps_def pre_def)
  have texts: "\<forall>p \<in> set ps. \<forall>c \<in> set (getchildren p). node_text c \<noteq> None"
    using assms(3) by (simp add: ps_def)
  have dist: "\<forall>entry \<in> set entries. distinct (map fst entry)"
    by (auto simp: entries prefixed_dict_def distinct_py_dict)
  have strs: "\<exists>s. v = PyStr s" if "entry \<in> set entries" "(k, v) \<in> set entry" for entry k v
  proof -
    from that(1) obtain p where p: "p \<in> set ps" and e: "entry = prefixed_dict pre p"
      by (auto simp: entries)
    from texts p have "\<forall>c \<in> set (getchildren p). node_text c \<noteq> None" by blast
    with that(2) [unfolded e] show ?thesis by (rule prefixed_dict_values)
  qed
  define r where "r = collect_entries entries"
  have lookup: "map_of r k = (if field_values k entries = [] then None
                            else Some (field_values k entries))" for k
    unfolding r_def by (rule map_of_collect_entries [OF dist])
  have rstr: "\<forall>(k, vs) \<in> set r. \<exists>ss. vs = map PyStr ss"
  proof (clarify)
    fix k vs assume "(k, vs) \<in> set r"
    with distinct_collect_entries [of entries] have "map_of r k = Some vs"
      by (simp add: r_def)
    with lookup [of k] have vs: "vs = field_values k entries"
      by (simp split: if_splits)
    have "\<forall>v \<in> set vs. \<exists>s. v = PyStr s"
    proof
      fix v assume "v \<in> set vs"
      with vs set_field_values [of v k entries]
      obtain entry where "entry \<in> set entries" "(k, v) \<in> set entry" by blast
      then show "\<exists>s. v = PyStr s" by (rule strs)
    qed
    then show "\<exists>ss. vs = map PyStr ss" by (rule strings_map_PyStr)
  qed
  from join_values_strings [OF rstr] obtain res where
    res: "join_values r = Inr res"
    and none: "\<And>k. map_of r k = None \<Longrightarrow> map_of res k = None"
    and some: "\<And>k ss. map_of r k = Some (map PyStr ss) \<Longrightarrow>
                 map_of res k = Some (PyStr (intercalate '', '' ss))"
    by blast
  from assms(1,2) have "xpath [''TimeSeries'', ''Asset_RegisteredResource''] Period \<noteq> []"
    by auto
  from get_resource_nonempty [OF this] have g: "get_resource Period = Inr (Some res)"
    using res by (simp add: r_def assms(1))
  have "map_of res key = (if ss = [] then None else Some (PyStr (intercalate '', '' ss)))"
    if "field_values key entries = map PyStr ss" for key ss
  proof (cases "ss = []")
    case True
    with that lookup [of key] have "map_of r key = None" by simp
    from none [OF this] True show ?thesis by simp
  next
    case False
    with that lookup [of key] have "map_of r key = Some (map PyStr ss)" by simp
    from some [OF this] False show ?thesis by simp
  qed
  with g show ?thesis by blast
qed

theorem get_resource_join_witness:
  "\<exists>result. get_resource (outage_document [resource ''R1'' ''A'', resource ''R2'' ''B''])
              = Inr (Some result) \<and>
            map_of result ''Asset_RegisteredResource.mRID'' = Some (PyStr ''R1, R2'') \<and>
            map_of result ''Asset_RegisteredResource.name'' = Some (PyStr ''A, B'')"
proof -
  let ?doc = "outage_document [resource ''R1'' ''A'', resource ''R2'' ''B'']"
  let ?entries = "[[(''Asset_RegisteredResource.mRID'', PyStr ''R1''),
                    (''Asset_RegisteredResource.name'', PyStr ''A'')],
                   [(''Asset_RegisteredResource.mRID'', PyStr ''R2''),
                    (''Asset_RegisteredResource.name'', PyStr ''B'')]]"
  have x: "xpath [''TimeSeries'', ''Asset_RegisteredResource''] ?doc
             = [resource ''R1'' ''A'', resource ''R2'' ''B'']"
    by (simp add: outage_document_def resource_def xpath.simps xpath_step_def)
  have e: "?entries = map (prefixed_dict ''Asset_RegisteredResource'')
                       (xpath [''TimeSeries'', ''Asset_RegisteredResource''] ?doc)"
    unfolding x by (simp add: resource_def prefixed_dict_def py_dict_def text_of_def)
  have ne: "?entries \<noteq> []" by simp
  have t: "\<forall>p \<in> set (xpath [''TimeSeries'', ''Asset_RegisteredResource''] ?doc).
           \<forall>c \<in> set (getchildren p). node_text c \<noteq> None"
    unfolding x by (simp add: resource_def)
  have f1: "field_values ''Asset_RegisteredResource.mRID'' ?entries = map PyStr [''R1'', ''R2'']"
    and f2: "field_values ''Asset_RegisteredResource.name'' ?entries = map PyStr [''A'', ''B'']"
    by (simp_all add: field_values_def)
  from get_resource_join [OF e ne t] obtain result where
    g: "get_resource ?doc = Inr (Some result)"
    and j: "\<And>key ss. field_values key ?entries = map PyStr ss \<Longrightarrow>
              map_of result key =
                (if ss = [] then None else Some (PyStr (intercalate '', '' ss)))"
    by blast
  from j [OF f1] j [OF f2] g show ?thesis by simp
qed

end
